theory Spec2Isabelle
  imports Main "HOL-Library.Word"
begin

section \<open>The staging store of the full node: data model\<close>

text \<open>
  A shallow embedding of \<^verbatim>\<open>src/full_node/full_node_store.py\<close> (class
  \<^verbatim>\<open>FullNodeStore\<close>). Python objects are records, tuples of different arity are
  constructors of one datatype, every raise is a value of \<open>error\<close>, and an attribute
  that has not been assigned is \<open>None\<close>. The integer classes \<^verbatim>\<open>uint8\<close>,
  \<^verbatim>\<open>uint64\<close> and \<^verbatim>\<open>uint128\<close> subclass Python's \<^verbatim>\<open>int\<close>; the store only
  adds, divides and compares them, which gives plain unbounded integers, so they are
  natural numbers here.
\<close>

text \<open>
  Modelled from the spec: the classes \<^verbatim>\<open>VDFInfo\<close>, \<^verbatim>\<open>VDFProof\<close>,
  \<^verbatim>\<open>EndOfSubSlotBundle\<close> with its three chain-end objects and its proofs,
  \<^verbatim>\<open>SignagePoint\<close>, \<^verbatim>\<open>SubBlockRecord\<close>, \<^verbatim>\<open>ConsensusConstants\<close>,
  \<^verbatim>\<open>NewInfusionPointVDF\<close>, \<^verbatim>\<open>RewardChainSubBlock\<close> and \<^verbatim>\<open>UnfinishedBlock\<close> are
  declared outside the source files at hand. Each record below has the attributes that
  the store reads, under the names the store uses (section 3 of the specification
  describes them); \<open>rc_deficit\<close> is the \<^verbatim>\<open>deficit\<close> of a reward-chain end and
  \<open>sb_reward_chain_ip_vdf\<close> the \<^verbatim>\<open>reward_chain_ip_vdf\<close> of a reward-chain sub-block,
  renamed because a sub-block record and an infusion point have attributes of the same
  names. The two hash lists of a sub-block record are lists; indexing an empty one raises
  \<^verbatim>\<open>IndexError\<close>. \<^verbatim>\<open>FullBlock\<close> is in \<^verbatim>\<open>src/types/full_block.py\<close>; the record keeps
  two of its fields.
\<close>

type_synonym bytes32 = "256 word"

datatype error =
  AttributeError | ValueError | KeyError | IndexError | AssertionError | ZeroDivisionError

record vdf_info =
  challenge_hash :: bytes32
  number_of_iterations :: nat
  vdf_output :: nat

record vdf_proof =
  witness_type :: nat
  witness :: "nat list"

record challenge_chain_sub_slot =
  challenge_chain_end_of_slot_vdf :: vdf_info

record infused_challenge_chain_sub_slot =
  infused_challenge_chain_end_of_slot_vdf :: vdf_info

record reward_chain_sub_slot =
  end_of_slot_vdf :: vdf_info
  rc_deficit :: nat

record sub_slot_proofs =
  challenge_chain_slot_proof :: vdf_proof
  infused_challenge_chain_slot_proof :: "vdf_proof option"
  reward_chain_slot_proof :: vdf_proof

record end_of_sub_slot_bundle =
  challenge_chain :: challenge_chain_sub_slot
  infused_challenge_chain :: "infused_challenge_chain_sub_slot option"
  reward_chain :: reward_chain_sub_slot
  proofs :: sub_slot_proofs

record signage_point =
  cc_vdf :: "vdf_info option"
  cc_proof :: "vdf_proof option"
  rc_vdf :: "vdf_info option"
  rc_proof :: "vdf_proof option"

record sub_block_record =
  prev_hash :: bytes32
  total_iters :: nat
  ips :: nat
  required_iters :: nat
  deficit :: nat
  first_in_sub_slot :: bool
  reward_infusion_new_challenge :: bytes32
  challenge_block_info_hash :: bytes32
  finished_challenge_slot_hashes :: "bytes32 list"
  finished_infused_challenge_slot_hashes :: "bytes32 list"

record consensus_constants =
  NUM_CHECKPOINTS_PER_SLOT :: nat
  MIN_SUB_BLOCKS_PER_CHALLENGE_BLOCK :: nat
  FIRST_CC_CHALLENGE :: bytes32

record new_infusion_point_vdf =
  unfinished_reward_hash :: bytes32
  reward_chain_ip_vdf :: vdf_info

record reward_chain_sub_block =
  sub_block_height :: nat
  sb_reward_chain_ip_vdf :: vdf_info

record full_block =
  reward_chain_sub_block :: reward_chain_sub_block
  transactions_filter :: "nat list"

typedecl unfinished_block

text \<open>
  One cell of a signage-point list of a four-tuple entry: \<^verbatim>\<open>None\<close> or the pair
  \<^verbatim>\<open>(vdf_info, proof)\<close> that \<^verbatim>\<open>new_signage_point\<close> writes.
\<close>

type_synonym sp_cell = "(vdf_info \<times> vdf_proof) option"

text \<open>
  The entries of \<^verbatim>\<open>finished_sub_slots\<close>. Python does not fix their shape, and the
  source uses three:
  \<^item> \<open>Tuple3\<close>: \<^verbatim>\<open>(eos, {}, total_iters)\<close>, built at lines 225, 312 and 313 and
    unpacked at lines 148, 164, 249 and 261; the dictionary (index to list of signage
    points) is an association list;
  \<^item> \<open>Tuple4\<close>: \<^verbatim>\<open>(sub_slot, sps_cc, sps_rc, total_iters)\<close>, unpacked at lines 241,
    295, 342 and 356 and built at line 298;
  \<^item> \<open>Boxed\<close>: the one-element list \<^verbatim>\<open>[(sub_slot, new_sps_cc, new_sps_rc, total_iters)]\<close>
    appended at line 304.
  Unpacking an entry into the wrong number of names raises \<^verbatim>\<open>ValueError\<close>.
\<close>

datatype slot =
  Tuple3 end_of_sub_slot_bundle "(nat \<times> signage_point list) list" nat
| Tuple4 end_of_sub_slot_bundle "sp_cell list" "sp_cell list" nat
| Boxed end_of_sub_slot_bundle "sp_cell list" "sp_cell list" nat

text \<open>
  The four future caches are class attributes with a mutable default (lines 39 to 48):
  one dictionary each, owned by the class and reached through every instance. No method
  assigns them on an instance.
\<close>

record caches =
  future_eos_cache :: "bytes32 \<rightharpoonup> end_of_sub_slot_bundle list"
  future_sp_cache :: "bytes32 \<rightharpoonup> signage_point list"
  future_ip_cache :: "bytes32 \<rightharpoonup> new_infusion_point_vdf list"
  future_sb_cache :: "bytes32 \<rightharpoonup> full_block list"

text \<open>
  The attributes of one instance. Lines 20 to 33 only annotate them, which creates no
  attribute: each is \<open>None\<close> until a method assigns it.
\<close>

record store =
  constants :: "consensus_constants option"
  candidate_blocks :: "(bytes32 \<rightharpoonup> unfinished_block) option"
  seen_unfinished_blocks :: "bytes32 set option"
  disconnected_blocks :: "(bytes32 \<rightharpoonup> full_block) option"
  unfinished_blocks :: "(bytes32 \<rightharpoonup> unfinished_block) option"
  finished_sub_slots :: "slot list option"

text \<open>What a method sees through \<^verbatim>\<open>self\<close>: the class's caches and the instance.\<close>

type_synonym state = "caches \<times> store"

text \<open>
  Functions of this repository that the store calls and that are not among its source
  files; they are parameters of the model: the \<^verbatim>\<open>get_hash\<close> methods of the three
  chain-end objects, the attribute \<^verbatim>\<open>challenge_chain_hash\<close> read at line 262,
  \<^verbatim>\<open>VDFProof.is_valid\<close>, \<^verbatim>\<open>calculate_sub_slot_iters\<close>, \<^verbatim>\<open>calculate_ip_iters\<close>
  and \<^verbatim>\<open>SubBlockRecord.is_challenge_sub_block\<close>.
\<close>

record externals =
  cc_get_hash :: "challenge_chain_sub_slot \<Rightarrow> bytes32"
  icc_get_hash :: "infused_challenge_chain_sub_slot \<Rightarrow> bytes32"
  rc_get_hash :: "reward_chain_sub_slot \<Rightarrow> bytes32"
  challenge_chain_hash :: "end_of_sub_slot_bundle \<Rightarrow> bytes32"
  is_valid :: "vdf_proof \<Rightarrow> consensus_constants \<Rightarrow> vdf_info \<Rightarrow> bool"
  calculate_sub_slot_iters :: "consensus_constants \<Rightarrow> nat \<Rightarrow> nat"
  calculate_ip_iters :: "consensus_constants \<Rightarrow> nat \<Rightarrow> nat \<Rightarrow> nat"
  is_challenge_sub_block :: "sub_block_record \<Rightarrow> consensus_constants \<Rightarrow> bool"

section \<open>Construction\<close>

text \<open>\<^verbatim>\<open>cls()\<close>: an instance with no attribute of its own.\<close>

definition fresh :: store where
  "fresh = \<lparr>constants = None, candidate_blocks = None, seen_unfinished_blocks = None,
     disconnected_blocks = None, unfinished_blocks = None, finished_sub_slots = None\<rparr>"

text \<open>\<^verbatim>\<open>clear_slots\<close> (line 144): \<^verbatim>\<open>self.finished_sub_slots.clear()\<close>.\<close>

definition clear_slots :: "state \<Rightarrow> (error + unit) \<times> state" where
  "clear_slots st =
     (case finished_sub_slots (snd st) of
        None \<Rightarrow> (Inl AttributeError, st)
      | Some ring \<Rightarrow> (Inr (), (fst st, (snd st)\<lparr>finished_sub_slots := Some []\<rparr>)))"

text \<open>\<^verbatim>\<open>create\<close> (lines 50 to 59), a class method: it returns the new instance.\<close>

definition create :: "consensus_constants \<Rightarrow> caches \<Rightarrow> (error + store) \<times> caches" where
  "create k cls =
     (let self = fresh\<lparr>constants := Some k\<rparr> in
      case clear_slots (cls, self) of
        (Inl e, st) \<Rightarrow> (Inl e, fst st)
      | (Inr u, st) \<Rightarrow>
          (Inr ((snd st)\<lparr>unfinished_blocks := Some Map.empty,
                          candidate_blocks := Some Map.empty,
                          seen_unfinished_blocks := Some {},
                          disconnected_blocks := Some Map.empty\<rparr>), fst st))"

section \<open>Future caches\<close>

text \<open>
  \<^verbatim>\<open>add_to_future_ip\<close> (lines 126 to 130) and \<^verbatim>\<open>add_to_future_sb\<close> (lines 135 to
  139): \<^verbatim>\<open>self.future_ip_cache\<close> finds the class's dictionary, and the item
  assignment and the \<^verbatim>\<open>append\<close> change that dictionary in place. A key that is not
  in the dictionary gets the empty list first, so the new list is the present one, or
  the empty one, with the element at its end.
\<close>

definition add_to_future_ip :: "new_infusion_point_vdf \<Rightarrow> state \<Rightarrow> state" where
  "add_to_future_ip infusion_point st =
     (let ch = challenge_hash (reward_chain_ip_vdf infusion_point);
          cache = future_ip_cache (fst st);
          present = (case cache ch of None \<Rightarrow> [] | Some l \<Rightarrow> l)
      in ((fst st)\<lparr>future_ip_cache := cache(ch \<mapsto> present @ [infusion_point])\<rparr>, snd st))"

definition get_future_ip :: "bytes32 \<Rightarrow> state \<Rightarrow> new_infusion_point_vdf list" where
  "get_future_ip rc_challenge_hash st =
     (case future_ip_cache (fst st) rc_challenge_hash of None \<Rightarrow> [] | Some l \<Rightarrow> l)"

definition add_to_future_sb :: "full_block \<Rightarrow> state \<Rightarrow> state" where
  "add_to_future_sb sub_block st =
     (let ch = challenge_hash (sb_reward_chain_ip_vdf (reward_chain_sub_block sub_block));
          cache = future_sb_cache (fst st);
          present = (case cache ch of None \<Rightarrow> [] | Some l \<Rightarrow> l)
      in ((fst st)\<lparr>future_sb_cache := cache(ch \<mapsto> present @ [sub_block])\<rparr>, snd st))"

definition get_future_sb :: "bytes32 \<Rightarrow> state \<Rightarrow> full_block list" where
  "get_future_sb rc_challenge_hash st =
     (case future_sb_cache (fst st) rc_challenge_hash of None \<Rightarrow> [] | Some l \<Rightarrow> l)"

section \<open>Finished sub-slots\<close>

text \<open>
  The loop of \<^verbatim>\<open>new_finished_sub_slot\<close> at lines 198 to 200:
  \<^verbatim>\<open>while not curr.first_in_sub_slot and not curr.is_challenge_sub_block(constants):
      curr = sub_blocks[curr.prev_hash]\<close>.
  A missing key raises \<^verbatim>\<open>KeyError\<close>; on records that point at each other the loop does
  not end, which is the value \<open>None\<close>.
\<close>

partial_function (option) challenge_start ::
  "externals \<Rightarrow> consensus_constants \<Rightarrow> (bytes32 \<rightharpoonup> sub_block_record) \<Rightarrow> sub_block_record
     \<Rightarrow> (error + sub_block_record) option" where
  "challenge_start X k sub_blocks cur =
     (if \<not> first_in_sub_slot cur \<and> \<not> is_challenge_sub_block X cur k
      then (case sub_blocks (prev_hash cur) of
              None \<Rightarrow> Some (Inl KeyError)
            | Some nxt \<Rightarrow> challenge_start X k sub_blocks nxt)
      else Some (Inr cur))"

text \<open>
  Lines 171 to 181: the three proof checks. \<open>Inr True\<close> when every check passes,
  \<open>Inr False\<close> where the source returns \<^verbatim>\<open>False\<close>; a bundle with an infused challenge
  chain and no proof for it raises \<^verbatim>\<open>AttributeError\<close>.
\<close>

definition proofs_valid ::
  "externals \<Rightarrow> consensus_constants \<Rightarrow> end_of_sub_slot_bundle \<Rightarrow> error + bool" where
  "proofs_valid X k eos =
     (if \<not> is_valid X (challenge_chain_slot_proof (proofs eos)) k
              (challenge_chain_end_of_slot_vdf (challenge_chain eos)) then Inr False
      else if \<not> is_valid X (reward_chain_slot_proof (proofs eos)) k
              (end_of_slot_vdf (reward_chain eos)) then Inr False
      else (case infused_challenge_chain eos of
              None \<Rightarrow> Inr True
            | Some icc \<Rightarrow>
                (case infused_challenge_chain_slot_proof (proofs eos) of
                   None \<Rightarrow> Inl AttributeError
                 | Some p \<Rightarrow>
                     if \<not> is_valid X p k (infused_challenge_chain_end_of_slot_vdf icc)
                     then Inr False else Inr True)))"

text \<open>
  Lines 197 to 211, the peak's deficit is below the minimum: \<open>Inr True\<close> when the
  infused challenge chain of the bundle starts at the expected hash, \<open>Inr False\<close> where
  the source returns \<^verbatim>\<open>False\<close>.
\<close>

definition icc_start_ok ::
  "externals \<Rightarrow> consensus_constants \<Rightarrow> end_of_sub_slot_bundle
     \<Rightarrow> (bytes32 \<rightharpoonup> sub_block_record) \<Rightarrow> sub_block_record \<Rightarrow> (error + bool) option" where
  "icc_start_ok X k eos sub_blocks peak =
     (case challenge_start X k sub_blocks peak of
        None \<Rightarrow> None
      | Some (Inl e) \<Rightarrow> Some (Inl e)
      | Some (Inr cur) \<Rightarrow>
          (let start =
                 (if is_challenge_sub_block X cur k then Inr (challenge_block_info_hash cur)
                  else (case finished_infused_challenge_slot_hashes cur of
                          [] \<Rightarrow> Inl IndexError
                        | hs \<Rightarrow> Inr (last hs)))
           in case start of
                Inl e \<Rightarrow> Some (Inl e)
              | Inr icc_start_challenge_hash \<Rightarrow>
                  (case infused_challenge_chain eos of
                     None \<Rightarrow> Some (Inl AttributeError)
                   | Some icc \<Rightarrow>
                       if challenge_hash (infused_challenge_chain_end_of_slot_vdf icc)
                            \<noteq> icc_start_challenge_hash
                       then Some (Inr False) else Some (Inr True))))"

text \<open>
  Lines 213 to 223, an empty slot after the peak: the reward chain and, when the last
  slot's deficit is below the minimum, the infused challenge chain continue the last
  slot's.
\<close>

definition empty_slot_ok ::
  "externals \<Rightarrow> consensus_constants \<Rightarrow> end_of_sub_slot_bundle \<Rightarrow> end_of_sub_slot_bundle
     \<Rightarrow> error + bool" where
  "empty_slot_ok X k eos last_slot =
     (if challenge_hash (end_of_slot_vdf (reward_chain eos))
           \<noteq> rc_get_hash X (reward_chain last_slot) then Inr False
      else if rc_deficit (reward_chain last_slot) < MIN_SUB_BLOCKS_PER_CHALLENGE_BLOCK k
      then (case infused_challenge_chain eos of
              None \<Rightarrow> Inl AttributeError
            | Some icc \<Rightarrow>
                (case infused_challenge_chain last_slot of
                   None \<Rightarrow> Inl AttributeError
                 | Some last_icc \<Rightarrow>
                     if challenge_hash (infused_challenge_chain_end_of_slot_vdf icc)
                          \<noteq> icc_get_hash X last_icc
                     then Inr False else Inr True))
      else Inr True)"

text \<open>Line 225: \<^verbatim>\<open>self.finished_sub_slots.append((eos, {}, total_iters))\<close>.\<close>

definition append_slot :: "end_of_sub_slot_bundle \<Rightarrow> nat \<Rightarrow> slot list \<Rightarrow> state \<Rightarrow> state" where
  "append_slot eos new_total ring st =
     (fst st, (snd st)\<lparr>finished_sub_slots := Some (ring @ [Tuple3 eos [] new_total])\<rparr>)"

text \<open>Lines 190 to 192: the bundle joins the list cached under its reward-chain challenge.\<close>

definition defer_eos :: "end_of_sub_slot_bundle \<Rightarrow> state \<Rightarrow> state" where
  "defer_eos eos st =
     (let rc_challenge = challenge_hash (end_of_slot_vdf (reward_chain eos));
          cache = future_eos_cache (fst st);
          present = (case cache rc_challenge of None \<Rightarrow> [] | Some l \<Rightarrow> l)
      in ((fst st)\<lparr>future_eos_cache := cache(rc_challenge \<mapsto> present @ [eos])\<rparr>, snd st))"

text \<open>
  \<^verbatim>\<open>new_finished_sub_slot\<close> (lines 153 to 226). The result is \<open>None\<close> when the loop of
  lines 198 to 200 does not end; otherwise the returned value or the exception, with the
  state the call leaves.
\<close>

definition new_finished_sub_slot ::
  "externals \<Rightarrow> end_of_sub_slot_bundle \<Rightarrow> (bytes32 \<rightharpoonup> sub_block_record) \<Rightarrow> sub_block_record
     \<Rightarrow> state \<Rightarrow> ((error + bool) \<times> state) option" where
  "new_finished_sub_slot X eos sub_blocks peak st =
     (case finished_sub_slots (snd st) of
        None \<Rightarrow> Some (Inl AttributeError, st)
      | Some ring \<Rightarrow>
          if length ring = 0 then Some (Inr False, st)
          else (case last ring of
             Tuple3 last_slot sps last_slot_iters \<Rightarrow>
               if challenge_hash (challenge_chain_end_of_slot_vdf (challenge_chain eos))
                    \<noteq> cc_get_hash X (challenge_chain last_slot)
               then Some (Inr False, st)
               else (case constants (snd st) of
                  None \<Rightarrow> Some (Inl AttributeError, st)
                | Some k \<Rightarrow>
                   (case proofs_valid X k eos of
                      Inl e \<Rightarrow> Some (Inl e, st)
                    | Inr False \<Rightarrow> Some (Inr False, st)
                    | Inr True \<Rightarrow>
                       (let new_total =
                              last_slot_iters
                              + number_of_iterations
                                  (challenge_chain_end_of_slot_vdf (challenge_chain eos))
                        in if total_iters peak > last_slot_iters
                           then (if reward_infusion_new_challenge peak
                                      \<noteq> challenge_hash (end_of_slot_vdf (reward_chain eos))
                                 then Some (Inr False, defer_eos eos st)
                                 else if total_iters peak
                                           + number_of_iterations
                                               (end_of_slot_vdf (reward_chain eos))
                                         \<noteq> new_total
                                 then Some (Inr False, st)
                                 else if deficit peak < MIN_SUB_BLOCKS_PER_CHALLENGE_BLOCK k
                                 then (case icc_start_ok X k eos sub_blocks peak of
                                         None \<Rightarrow> None
                                       | Some (Inl e) \<Rightarrow> Some (Inl e, st)
                                       | Some (Inr False) \<Rightarrow> Some (Inr False, st)
                                       | Some (Inr True) \<Rightarrow>
                                           Some (Inr True, append_slot eos new_total ring st))
                                 else Some (Inr True, append_slot eos new_total ring st))
                           else (case empty_slot_ok X k eos last_slot of
                                   Inl e \<Rightarrow> Some (Inl e, st)
                                 | Inr False \<Rightarrow> Some (Inr False, st)
                                 | Inr True \<Rightarrow>
                                     Some (Inr True, append_slot eos new_total ring st)))))
           | Tuple4 a b c d \<Rightarrow> Some (Inl ValueError, st)
           | Boxed a b c d \<Rightarrow> Some (Inl ValueError, st)))"

section \<open>Signage points\<close>

text \<open>
  The loop of \<^verbatim>\<open>new_signage_point\<close> (lines 241 to 246) over the ring: the result and the
  ring it leaves. The two item assignments run one after the other, and an index
  outside a list raises \<^verbatim>\<open>IndexError\<close>. The lists of different entries are taken to
  be different objects.
\<close>

fun store_signage_point ::
  "externals \<Rightarrow> bytes32 \<Rightarrow> nat \<Rightarrow> vdf_info \<times> vdf_proof \<Rightarrow> vdf_info \<times> vdf_proof \<Rightarrow> slot list
     \<Rightarrow> (error + bool) \<times> slot list" where
  "store_signage_point X ch i cc rc [] = (Inr False, [])"
| "store_signage_point X ch i cc rc (Tuple4 sub_slot sps_cc sps_rc t # rest) =
     (if cc_get_hash X (challenge_chain sub_slot) = ch
      then (if i < length sps_cc
            then (if i < length sps_rc
                  then (Inr True,
                        Tuple4 sub_slot (sps_cc[i := Some cc]) (sps_rc[i := Some rc]) t # rest)
                  else (Inl IndexError, Tuple4 sub_slot (sps_cc[i := Some cc]) sps_rc t # rest))
            else (Inl IndexError, Tuple4 sub_slot sps_cc sps_rc t # rest))
      else (case store_signage_point X ch i cc rc rest of
              (r, rest') \<Rightarrow> (r, Tuple4 sub_slot sps_cc sps_rc t # rest')))"
| "store_signage_point X ch i cc rc (s # rest) = (Inl ValueError, s # rest)"

text \<open>\<^verbatim>\<open>new_signage_point\<close> (lines 228 to 246).\<close>

definition new_signage_point ::
  "externals \<Rightarrow> bytes32 \<Rightarrow> nat \<Rightarrow> vdf_info \<Rightarrow> vdf_proof \<Rightarrow> vdf_info \<Rightarrow> vdf_proof \<Rightarrow> state
     \<Rightarrow> (error + bool) \<times> state" where
  "new_signage_point X ch index vdf_info_cc proof_cc vdf_info_rc proof_rc st =
     (case constants (snd st) of
        None \<Rightarrow> (Inl AttributeError, st)
      | Some k \<Rightarrow>
          if \<not> (0 < index \<and> index < NUM_CHECKPOINTS_PER_SLOT k) then (Inl AssertionError, st)
          else (case finished_sub_slots (snd st) of
                  None \<Rightarrow> (Inl AttributeError, st)
                | Some ring \<Rightarrow>
                    (case store_signage_point X ch index (vdf_info_cc, proof_cc)
                            (vdf_info_rc, proof_rc) ring of
                       (r, ring') \<Rightarrow>
                         (r, (fst st, (snd st)\<lparr>finished_sub_slots := Some ring'\<rparr>)))))"

text \<open>\<^verbatim>\<open>SignagePoint(None, None, None, None)\<close>, the signage point of index 0.\<close>

definition empty_signage_point :: signage_point where
  "empty_signage_point = \<lparr>cc_vdf = None, cc_proof = None, rc_vdf = None, rc_proof = None\<rparr>"

text \<open>Lines 267 to 270: the first signage point on the given reward-chain infusion.\<close>

fun first_on_infusion :: "bytes32 \<Rightarrow> signage_point list \<Rightarrow> error + signage_point option" where
  "first_on_infusion h [] = Inr None"
| "first_on_infusion h (sp # sps) =
     (case rc_vdf sp of
        None \<Rightarrow> Inl AttributeError
      | Some v \<Rightarrow> if challenge_hash v = h then Inr (Some sp) else first_on_infusion h sps)"

text \<open>The loop of \<^verbatim>\<open>get_signage_point_by_index\<close> (lines 261 to 271).\<close>

fun signage_point_in ::
  "externals \<Rightarrow> bytes32 \<Rightarrow> nat \<Rightarrow> bytes32 \<Rightarrow> slot list \<Rightarrow> error + signage_point option" where
  "signage_point_in X ch index last_rc_infusion [] = Inr None"
| "signage_point_in X ch index last_rc_infusion (Tuple3 sub_slot sps t # rest) =
     (if challenge_chain_hash X sub_slot = ch
      then (if index = 0 then Inr (Some empty_signage_point)
            else (case map_of sps index of
                    None \<Rightarrow> Inr None
                  | Some l \<Rightarrow> first_on_infusion last_rc_infusion l))
      else signage_point_in X ch index last_rc_infusion rest)"
| "signage_point_in X ch index last_rc_infusion (s # rest) = Inl ValueError"

text \<open>\<^verbatim>\<open>get_signage_point_by_index\<close> (lines 258 to 271); it changes nothing.\<close>

definition get_signage_point_by_index ::
  "externals \<Rightarrow> bytes32 \<Rightarrow> nat \<Rightarrow> bytes32 \<Rightarrow> state \<Rightarrow> error + signage_point option" where
  "get_signage_point_by_index X ch index last_rc_infusion st =
     (case finished_sub_slots (snd st) of
        None \<Rightarrow> Inl AttributeError
      | Some ring \<Rightarrow> signage_point_in X ch index last_rc_infusion ring)"

section \<open>Peak transition\<close>

text \<open>
  The loop of \<^verbatim>\<open>new_peak\<close> at lines 295 to 305 over the entries of the ring as it was
  when the loop began. The state of the loop: \<open>acc\<close> is \<^verbatim>\<open>new_finished_sub_slots\<close>;
  \<open>assigned\<close> says whether line 305 has made it \<^verbatim>\<open>self.finished_sub_slots\<close>; \<open>ti\<close>
  is the variable \<^verbatim>\<open>total_iters\<close>, which is the method's parameter until the loop's
  target list binds it to the fourth component of each entry. The result also carries the
  exception of an entry that does not unpack into four names.
\<close>

fun prune_slots ::
  "end_of_sub_slot_bundle \<Rightarrow> end_of_sub_slot_bundle option \<Rightarrow> nat \<Rightarrow> nat \<Rightarrow> slot list
     \<Rightarrow> slot list \<Rightarrow> bool \<Rightarrow> nat \<Rightarrow> error option \<times> slot list \<times> bool \<times> nat" where
  "prune_slots peak_sub_slot prev_sub_slot sps_to_keep num [] acc assigned ti =
     (None, acc, assigned, ti)"
| "prune_slots peak_sub_slot prev_sub_slot sps_to_keep num
       (Tuple4 sub_slot sps_cc sps_rc t # rest) acc assigned ti =
     (let acc1 =
            (if (case prev_sub_slot of None \<Rightarrow> False | Some p \<Rightarrow> sub_slot = p)
             then acc @ [Tuple4 sub_slot sps_cc sps_rc t] else acc)
      in if sub_slot = peak_sub_slot
         then prune_slots peak_sub_slot prev_sub_slot sps_to_keep num rest
                (acc1 @ [Boxed sub_slot
                           (take sps_to_keep sps_cc @ replicate (num - sps_to_keep) None)
                           (take sps_to_keep sps_rc @ replicate (num - sps_to_keep) None) t])
                True t
         else prune_slots peak_sub_slot prev_sub_slot sps_to_keep num rest acc1 assigned t)"
| "prune_slots peak_sub_slot prev_sub_slot sps_to_keep num (s # rest) acc assigned ti =
     (Some ValueError, acc, assigned, ti)"

text \<open>
  Lines 287 to 305 of \<^verbatim>\<open>new_peak\<close>: the value of \<^verbatim>\<open>total_iters\<close> after them, or the
  exception, and the state. Both divisions are Python's floor division, which raises on a
  zero divisor. The conversion \<^verbatim>\<open>uint64(...)\<close> of line 291 is taken to keep the number.
\<close>

definition new_peak_prune ::
  "externals \<Rightarrow> sub_block_record \<Rightarrow> end_of_sub_slot_bundle \<Rightarrow> nat
     \<Rightarrow> end_of_sub_slot_bundle option \<Rightarrow> bool \<Rightarrow> state \<Rightarrow> (error + nat) \<times> state" where
  "new_peak_prune X peak peak_sub_slot ti prev_sub_slot reorg st =
     (if \<not> reorg
      then (case constants (snd st) of
              None \<Rightarrow> (Inl AttributeError, st)
            | Some k \<Rightarrow>
                (let sub_slot_iters = calculate_sub_slot_iters X k (ips peak) in
                 if NUM_CHECKPOINTS_PER_SLOT k = 0 then (Inl ZeroDivisionError, st)
                 else
                   (let checkpoint_size = sub_slot_iters div NUM_CHECKPOINTS_PER_SLOT k;
                        ip_iters = calculate_ip_iters X k (ips peak) (required_iters peak)
                    in if checkpoint_size = 0 then (Inl ZeroDivisionError, st)
                       else
                         (let sps_to_keep = ip_iters div checkpoint_size + 1 in
                          case finished_sub_slots (snd st) of
                            None \<Rightarrow> (Inl AttributeError, st)
                          | Some ring \<Rightarrow>
                              (case prune_slots peak_sub_slot prev_sub_slot sps_to_keep
                                      (NUM_CHECKPOINTS_PER_SLOT k) ring [] False ti of
                                 (err, acc, assigned, ti') \<Rightarrow>
                                   (let st' = (if assigned
                                               then (fst st,
                                                     (snd st)\<lparr>finished_sub_slots := Some acc\<rparr>)
                                               else st)
                                    in case err of
                                         Some e \<Rightarrow> (Inl e, st')
                                       | None \<Rightarrow> (Inr ti', st')))))))
      else (Inr ti, st))"

text \<open>
  Lines 309 to 313 of \<^verbatim>\<open>new_peak\<close>: the ring is cleared and seeded with the previous
  sub-slot, when there is one, and the peak's sub-slot.
\<close>

definition new_peak_seed ::
  "end_of_sub_slot_bundle \<Rightarrow> nat \<Rightarrow> end_of_sub_slot_bundle option \<Rightarrow> nat option \<Rightarrow> state
     \<Rightarrow> (error + unit) \<times> state" where
  "new_peak_seed peak_sub_slot ti prev_sub_slot prev_sub_slot_total_iters st =
     (case clear_slots st of
        (Inl e, st1) \<Rightarrow> (Inl e, st1)
      | (Inr u, st1) \<Rightarrow>
          (case prev_sub_slot of
             None \<Rightarrow>
               (Inr (), (fst st1,
                  (snd st1)\<lparr>finished_sub_slots := Some ([] @ [Tuple3 peak_sub_slot [] ti])\<rparr>))
           | Some p \<Rightarrow>
               (case prev_sub_slot_total_iters of
                  None \<Rightarrow> (Inl AssertionError, st1)
                | Some pt \<Rightarrow>
                    (Inr (), (fst st1,
                       (snd st1)\<lparr>finished_sub_slots :=
                          Some ([Tuple3 p [] pt] @ [Tuple3 peak_sub_slot [] ti])\<rparr>)))))"

text \<open>
  Lines 315 to 318 of \<^verbatim>\<open>new_peak\<close>: the bundles cached under the peak's challenge are
  offered to \<^verbatim>\<open>new_finished_sub_slot\<close> in order, up to the first that is accepted. The
  loop walks the cached list itself; \<^verbatim>\<open>new_finished_sub_slot\<close> appends to the cache
  only under a key that differs from the peak's challenge (line 188), so the list does
  not change under the loop (lemma \<open>new_finished_sub_slot_cache_at_peak\<close> below).
\<close>

fun replay_eos ::
  "externals \<Rightarrow> (bytes32 \<rightharpoonup> sub_block_record) \<Rightarrow> sub_block_record
     \<Rightarrow> end_of_sub_slot_bundle list \<Rightarrow> state
     \<Rightarrow> ((error + end_of_sub_slot_bundle option) \<times> state) option" where
  "replay_eos X sub_blocks peak [] st = Some (Inr None, st)"
| "replay_eos X sub_blocks peak (eos # rest) st =
     (case new_finished_sub_slot X eos sub_blocks peak st of
        None \<Rightarrow> None
      | Some (Inl e, st') \<Rightarrow> Some (Inl e, st')
      | Some (Inr True, st') \<Rightarrow> Some (Inr (Some eos), st')
      | Some (Inr False, st') \<Rightarrow> replay_eos X sub_blocks peak rest st')"

text \<open>\<^verbatim>\<open>new_peak\<close> (lines 273 to 318).\<close>

definition new_peak ::
  "externals \<Rightarrow> sub_block_record \<Rightarrow> end_of_sub_slot_bundle \<Rightarrow> nat
     \<Rightarrow> end_of_sub_slot_bundle option \<Rightarrow> nat option \<Rightarrow> bool
     \<Rightarrow> (bytes32 \<rightharpoonup> sub_block_record) \<Rightarrow> state
     \<Rightarrow> ((error + end_of_sub_slot_bundle option) \<times> state) option" where
  "new_peak X peak peak_sub_slot ti prev_sub_slot prev_sub_slot_total_iters reorg sub_blocks st =
     (case new_peak_prune X peak peak_sub_slot ti prev_sub_slot reorg st of
        (Inl e, st1) \<Rightarrow> Some (Inl e, st1)
      | (Inr ti', st1) \<Rightarrow>
          (case new_peak_seed peak_sub_slot ti' prev_sub_slot prev_sub_slot_total_iters st1 of
             (Inl e, st2) \<Rightarrow> Some (Inl e, st2)
           | (Inr u, st2) \<Rightarrow>
               replay_eos X sub_blocks peak
                 (case future_eos_cache (fst st2) (reward_infusion_new_challenge peak) of
                    None \<Rightarrow> [] | Some l \<Rightarrow> l)
                 st2))"

section \<open>Enumerating finished sub-slots\<close>

text \<open>
  The loop of \<^verbatim>\<open>get_finished_sub_slots\<close> at lines 335 to 336:
  \<^verbatim>\<open>while not curr.first_in_sub_slot: curr = sub_block_records[curr.prev_hash]\<close>.
\<close>

partial_function (option) first_in_slot_ancestor ::
  "(bytes32 \<rightharpoonup> sub_block_record) \<Rightarrow> sub_block_record \<Rightarrow> (error + sub_block_record) option"
  where
  "first_in_slot_ancestor sub_block_records cur =
     (if \<not> first_in_sub_slot cur
      then (case sub_block_records (prev_hash cur) of
              None \<Rightarrow> Some (Inl KeyError)
            | Some nxt \<Rightarrow> first_in_slot_ancestor sub_block_records nxt)
      else Some (Inr cur))"

text \<open>Lines 333 to 339: the hash of the last sub-slot of the chain.\<close>

definition final_sub_slot_in_chain ::
  "sub_block_record option \<Rightarrow> (bytes32 \<rightharpoonup> sub_block_record) \<Rightarrow> state
     \<Rightarrow> (error + bytes32) option" where
  "final_sub_slot_in_chain prev_sb sub_block_records st =
     (case prev_sb of
        Some sb \<Rightarrow>
          (case first_in_slot_ancestor sub_block_records sb of
             None \<Rightarrow> None
           | Some (Inl e) \<Rightarrow> Some (Inl e)
           | Some (Inr cur) \<Rightarrow>
               (case finished_challenge_slot_hashes cur of
                  [] \<Rightarrow> Some (Inl IndexError)
                | hs \<Rightarrow> Some (Inr (last hs))))
      | None \<Rightarrow>
          (case constants (snd st) of
             None \<Rightarrow> Some (Inl AttributeError)
           | Some k \<Rightarrow> Some (Inr (FIRST_CC_CHALLENGE k))))"

text \<open>
  Lines 342 to 346: one pass over the ring, from entry number \<open>index\<close> on, that records
  the last entry on each of the two hashes.
\<close>

fun find_indices ::
  "externals \<Rightarrow> bytes32 \<Rightarrow> bytes32 \<Rightarrow> slot list \<Rightarrow> nat \<Rightarrow> nat option \<Rightarrow> nat option
     \<Rightarrow> error + (nat option \<times> nat option)" where
  "find_indices X pos_challenge_hash final [] index pos_index final_index =
     Inr (pos_index, final_index)"
| "find_indices X pos_challenge_hash final (Tuple4 sub_slot sps_cc sps_rc t # rest)
       index pos_index final_index =
     find_indices X pos_challenge_hash final rest (index + 1)
       (if cc_get_hash X (challenge_chain sub_slot) = pos_challenge_hash
        then Some index else pos_index)
       (if cc_get_hash X (challenge_chain sub_slot) = final
        then Some index else final_index)"
| "find_indices X pos_challenge_hash final (s # rest) index pos_index final_index =
     Inl ValueError"

text \<open>Line 356: the comprehension over the slice, which unpacks four-tuples.\<close>

fun sub_slots_of :: "slot list \<Rightarrow> error + end_of_sub_slot_bundle list" where
  "sub_slots_of [] = Inr []"
| "sub_slots_of (Tuple4 sub_slot sps_cc sps_rc t # rest) =
     (case sub_slots_of rest of Inl e \<Rightarrow> Inl e | Inr l \<Rightarrow> Inr (sub_slot # l))"
| "sub_slots_of (s # rest) = Inl ValueError"

text \<open>
  \<^verbatim>\<open>get_finished_sub_slots\<close> (lines 320 to 356); it changes nothing. The slice
  \<^verbatim>\<open>ring[final_index + 1 : new_final_index + 1]\<close> is \<open>take\<close> after \<open>drop\<close>: Python cuts
  a slice at the end of the list and gives the empty list when the bounds cross.
\<close>

definition get_finished_sub_slots ::
  "externals \<Rightarrow> sub_block_record option \<Rightarrow> (bytes32 \<rightharpoonup> sub_block_record) \<Rightarrow> bytes32 \<Rightarrow> bool
     \<Rightarrow> state \<Rightarrow> (error + end_of_sub_slot_bundle list) option" where
  "get_finished_sub_slots X prev_sb sub_block_records pos_challenge_hash extra_sub_slot st =
     (case final_sub_slot_in_chain prev_sb sub_block_records st of
        None \<Rightarrow> None
      | Some (Inl e) \<Rightarrow> Some (Inl e)
      | Some (Inr final) \<Rightarrow>
          (case finished_sub_slots (snd st) of
             None \<Rightarrow> Some (Inl AttributeError)
           | Some ring \<Rightarrow>
               (case find_indices X pos_challenge_hash final ring 0 None None of
                  Inl e \<Rightarrow> Some (Inl e)
                | Inr (None, fi) \<Rightarrow> Some (Inl ValueError)
                | Inr (Some pos_index, None) \<Rightarrow> Some (Inl ValueError)
                | Inr (Some pos_index, Some final_index) \<Rightarrow>
                    (let new_final_index =
                           (if extra_sub_slot then pos_index + 1 else pos_index)
                     in Some (sub_slots_of
                                (drop (final_index + 1) (take (new_final_index + 1) ring)))))))"

section \<open>Example data\<close>

text \<open>
  Concrete values for the external functions and for the objects of the scenarios below.
  The hash of a chain-end object is its challenge plus a constant, so that a bundle on
  challenge \<open>c + 1\<close> continues the challenge chain of a bundle on challenge \<open>c\<close>; every
  proof is valid; a sub-slot has \<open>32 * ips\<close> iterations and a sub-block's infusion is
  at its required iterations.
\<close>

definition ex_X :: externals where
  "ex_X = \<lparr>cc_get_hash = (\<lambda>c. challenge_hash (challenge_chain_end_of_slot_vdf c) + 1),
     icc_get_hash = (\<lambda>c. challenge_hash (infused_challenge_chain_end_of_slot_vdf c) + 200),
     rc_get_hash = (\<lambda>c. challenge_hash (end_of_slot_vdf c) + 100),
     challenge_chain_hash =
       (\<lambda>e. challenge_hash (challenge_chain_end_of_slot_vdf (challenge_chain e)) + 1),
     is_valid = (\<lambda>p k v. True),
     calculate_sub_slot_iters = (\<lambda>k i. 32 * i),
     calculate_ip_iters = (\<lambda>k i r. r),
     is_challenge_sub_block = (\<lambda>b k. deficit b + 1 = MIN_SUB_BLOCKS_PER_CHALLENGE_BLOCK k)\<rparr>"

definition ex_k :: consensus_constants where
  "ex_k = \<lparr>NUM_CHECKPOINTS_PER_SLOT = 32, MIN_SUB_BLOCKS_PER_CHALLENGE_BLOCK = 5,
     FIRST_CC_CHALLENGE = 0\<rparr>"

definition ex_vdf :: "bytes32 \<Rightarrow> nat \<Rightarrow> vdf_info" where
  "ex_vdf c n = \<lparr>challenge_hash = c, number_of_iterations = n, vdf_output = 0\<rparr>"

definition ex_proof :: vdf_proof where
  "ex_proof = \<lparr>witness_type = 0, witness = []\<rparr>"

text \<open>
  A bundle without infused challenge chain: challenge and iterations of its challenge
  chain, challenge and iterations of its reward chain; its deficit is the minimum.
\<close>

definition ex_eos :: "bytes32 \<Rightarrow> nat \<Rightarrow> bytes32 \<Rightarrow> nat \<Rightarrow> end_of_sub_slot_bundle" where
  "ex_eos c n r m =
     \<lparr>challenge_chain = \<lparr>challenge_chain_end_of_slot_vdf = ex_vdf c n\<rparr>,
      infused_challenge_chain = None,
      reward_chain = \<lparr>end_of_slot_vdf = ex_vdf r m, rc_deficit = 5\<rparr>,
      proofs = \<lparr>challenge_chain_slot_proof = ex_proof,
                infused_challenge_chain_slot_proof = None,
                reward_chain_slot_proof = ex_proof\<rparr>\<rparr>"

text \<open>A sub-block record: its total iterations and the challenge its infusion creates.\<close>

definition ex_peak :: "nat \<Rightarrow> bytes32 \<Rightarrow> sub_block_record" where
  "ex_peak t r =
     \<lparr>prev_hash = 0, total_iters = t, ips = 100, required_iters = 450, deficit = 5,
      first_in_sub_slot = True, reward_infusion_new_challenge = r,
      challenge_block_info_hash = 0, finished_challenge_slot_hashes = [2],
      finished_infused_challenge_slot_hashes = []\<rparr>"

definition ex_caches :: caches where
  "ex_caches = \<lparr>future_eos_cache = Map.empty, future_sp_cache = Map.empty,
     future_ip_cache = Map.empty, future_sb_cache = Map.empty\<rparr>"

text \<open>An instance with its constants, empty block tables and the given ring.\<close>

definition ex_store :: "slot list \<Rightarrow> store" where
  "ex_store ring = \<lparr>constants = Some ex_k, candidate_blocks = Some Map.empty,
     seen_unfinished_blocks = Some {}, disconnected_blocks = Some Map.empty,
     unfinished_blocks = Some Map.empty, finished_sub_slots = Some ring\<rparr>"

text \<open>
  Five sub-slots that continue one another, with totals 100 to 500: as three-tuples, the
  shape in which the store builds its entries, and as four-tuples with 32 empty cells.
\<close>

definition ex_ring3 :: "slot list" where
  "ex_ring3 =
     [Tuple3 (ex_eos 0 100 0 0) [] 100, Tuple3 (ex_eos 1 100 0 0) [] 200,
      Tuple3 (ex_eos 2 100 0 0) [] 300, Tuple3 (ex_eos 3 100 0 0) [] 400,
      Tuple3 (ex_eos 4 100 0 0) [] 500]"

definition ex_ring4 :: "slot list" where
  "ex_ring4 =
     [Tuple4 (ex_eos 0 100 0 0) (replicate 32 None) (replicate 32 None) 100,
      Tuple4 (ex_eos 1 100 0 0) (replicate 32 None) (replicate 32 None) 200,
      Tuple4 (ex_eos 2 100 0 0) (replicate 32 None) (replicate 32 None) 300,
      Tuple4 (ex_eos 3 100 0 0) (replicate 32 None) (replicate 32 None) 400,
      Tuple4 (ex_eos 4 100 0 0) (replicate 32 None) (replicate 32 None) 500]"

text \<open>A signage-point list with every index from 1 to 31 populated.\<close>

definition ex_full :: "sp_cell list" where
  "ex_full = None # replicate 31 (Some (ex_vdf 1 10, ex_proof))"

section \<open>Properties of the ring\<close>

text \<open>The components of an entry, whatever its shape.\<close>

fun slot_eos :: "slot \<Rightarrow> end_of_sub_slot_bundle" where
  "slot_eos (Tuple3 e d t) = e"
| "slot_eos (Tuple4 e a b t) = e"
| "slot_eos (Boxed e a b t) = e"

fun slot_total :: "slot \<Rightarrow> nat" where
  "slot_total (Tuple3 e d t) = t"
| "slot_total (Tuple4 e a b t) = t"
| "slot_total (Boxed e a b t) = t"

fun is_tuple3 :: "slot \<Rightarrow> bool" where
  "is_tuple3 (Tuple3 e d t) = True"
| "is_tuple3 (Tuple4 e a b t) = False"
| "is_tuple3 (Boxed e a b t) = False"

text \<open>An entry as lines 225, 312 and 313 build it: a three-tuple with an empty table.\<close>

fun empty_table :: "slot \<Rightarrow> bool" where
  "empty_table (Tuple3 e d t) = (d = [])"
| "empty_table (Tuple4 e a b t) = False"
| "empty_table (Boxed e a b t) = False"

definition tables_empty :: "state \<Rightarrow> bool" where
  "tables_empty st =
     (case finished_sub_slots (snd st) of
        None \<Rightarrow> False
      | Some ring \<Rightarrow> list_all empty_table ring)"

text \<open>The pairs of neighbouring entries, in ring order.\<close>

fun adjacent :: "slot list \<Rightarrow> (slot \<times> slot) list" where
  "adjacent (a # b # rest) = (a, b) # adjacent (b # rest)"
| "adjacent [a] = []"
| "adjacent [] = []"

text \<open>
  The three ring invariants of the specification, each for one pair of neighbours: the
  later entry's challenge chain is on the hash of the earlier one's; the later total is
  the earlier total plus the later entry's own challenge-chain iterations; the totals
  rise strictly.
\<close>

definition cc_chained :: "externals \<Rightarrow> slot \<times> slot \<Rightarrow> bool" where
  "cc_chained X p =
     (challenge_hash (challenge_chain_end_of_slot_vdf (challenge_chain (slot_eos (snd p))))
        = cc_get_hash X (challenge_chain (slot_eos (fst p))))"

definition total_adds_up :: "slot \<times> slot \<Rightarrow> bool" where
  "total_adds_up p =
     (slot_total (snd p)
        = slot_total (fst p)
          + number_of_iterations
              (challenge_chain_end_of_slot_vdf (challenge_chain (slot_eos (snd p)))))"

definition total_rises :: "slot \<times> slot \<Rightarrow> bool" where
  "total_rises p = (slot_total (fst p) < slot_total (snd p))"

text \<open>The invariants as the specification states them: all three, for every pair.\<close>

definition ring_invariants :: "externals \<Rightarrow> slot list \<Rightarrow> bool" where
  "ring_invariants X ring =
     (list_all total_rises (adjacent ring) \<and> list_all (cc_chained X) (adjacent ring)
      \<and> list_all total_adds_up (adjacent ring))"

text \<open>
  The totals of a pair do not fall, and they rise strictly when the later entry has a
  positive number of challenge-chain iterations.
\<close>

definition total_rises_if_positive :: "slot \<times> slot \<Rightarrow> bool" where
  "total_rises_if_positive p =
     (slot_total (fst p) \<le> slot_total (snd p)
      \<and> (number_of_iterations
            (challenge_chain_end_of_slot_vdf (challenge_chain (slot_eos (snd p)))) = 0
          \<or> slot_total (fst p) < slot_total (snd p)))"

text \<open>
  What the code keeps: the entries are three-tuples; every pair chains; every pair adds
  up, except that the first pair may instead be the two entries that \<^verbatim>\<open>new_peak\<close>
  seeded, whose totals are the caller's and rise strictly; so the totals never fall.
\<close>

definition ring_ok :: "externals \<Rightarrow> slot list \<Rightarrow> bool" where
  "ring_ok X ring =
     (list_all is_tuple3 ring
      \<and> list_all (cc_chained X) (adjacent ring)
      \<and> (case adjacent ring of
            [] \<Rightarrow> True
          | p # ps \<Rightarrow> (total_adds_up p \<or> total_rises p) \<and> list_all total_adds_up ps)
      \<and> list_all total_rises_if_positive (adjacent ring))"

definition store_ok :: "externals \<Rightarrow> state \<Rightarrow> bool" where
  "store_ok X st =
     (case finished_sub_slots (snd st) of None \<Rightarrow> False | Some ring \<Rightarrow> ring_ok X ring)"

text \<open>
  A consistent seed: when \<^verbatim>\<open>new_peak\<close> is given a previous sub-slot with its total,
  the peak's sub-slot continues its challenge chain and the previous total is below the
  peak sub-slot's total.
\<close>

definition consistent_seed ::
  "externals \<Rightarrow> end_of_sub_slot_bundle \<Rightarrow> nat \<Rightarrow> end_of_sub_slot_bundle option \<Rightarrow> nat option
     \<Rightarrow> bool" where
  "consistent_seed X peak_sub_slot ti prev_sub_slot prev_sub_slot_total_iters =
     (case prev_sub_slot of
        None \<Rightarrow> True
      | Some p \<Rightarrow>
          (case prev_sub_slot_total_iters of
             None \<Rightarrow> True
           | Some pt \<Rightarrow>
               challenge_hash (challenge_chain_end_of_slot_vdf (challenge_chain peak_sub_slot))
                 = cc_get_hash X (challenge_chain p)
               \<and> pt < ti))"

text \<open>
  The states of a store that starts with an empty ring (what \<^verbatim>\<open>create\<close> is written to
  set up) and is then driven by any sequence of its operations with any arguments, where
  every \<^verbatim>\<open>new_peak\<close> has a consistent seed. A call that raises leaves its state behind
  as well. The operations on the four block tables and on the seen set touch neither the
  ring nor the caches; rule \<open>tables\<close> lets them change those attributes at will. The
  getters change nothing.
\<close>

inductive reachable :: "externals \<Rightarrow> state \<Rightarrow> bool" for X :: externals where
  created: "finished_sub_slots (snd st) = Some [] \<Longrightarrow> reachable X st"
| peak: "reachable X st \<Longrightarrow>
     consistent_seed X peak_sub_slot ti prev_sub_slot prev_sub_slot_total_iters \<Longrightarrow>
     new_peak X peak peak_sub_slot ti prev_sub_slot prev_sub_slot_total_iters reorg sub_blocks st
       = Some (r, st') \<Longrightarrow> reachable X st'"
| finished: "reachable X st \<Longrightarrow>
     new_finished_sub_slot X eos sub_blocks peak st = Some (b, st') \<Longrightarrow> reachable X st'"
| signage: "reachable X st \<Longrightarrow>
     new_signage_point X ch index vdf_info_cc proof_cc vdf_info_rc proof_rc st = (b, st') \<Longrightarrow>
     reachable X st'"
| cleared: "reachable X st \<Longrightarrow> clear_slots st = (u, st') \<Longrightarrow> reachable X st'"
| future_ip: "reachable X st \<Longrightarrow> reachable X (add_to_future_ip infusion_point st)"
| future_sb: "reachable X st \<Longrightarrow> reachable X (add_to_future_sb sub_block st)"
| tables: "reachable X st \<Longrightarrow>
     reachable X (fst st, (snd st)\<lparr>candidate_blocks := cb, seen_unfinished_blocks := su,
                                  disconnected_blocks := db, unfinished_blocks := ub\<rparr>)"

text \<open>
  Notions for the replay of \<^verbatim>\<open>new_peak\<close>. The bundles cached under a key, in cached
  order (\<^verbatim>\<open>future_eos_cache.get(key, [])\<close>).
\<close>

definition cached_eos :: "state \<Rightarrow> bytes32 \<Rightarrow> end_of_sub_slot_bundle list" where
  "cached_eos st key = (case future_eos_cache (fst st) key of None \<Rightarrow> [] | Some l \<Rightarrow> l)"

text \<open>
  The ring as lines 309 to 313 seed it, \<open>t0\<close> being \<^verbatim>\<open>total_iters\<close> at line 313, and the
  state with that ring.
\<close>

definition seeded_ring ::
  "end_of_sub_slot_bundle \<Rightarrow> nat \<Rightarrow> end_of_sub_slot_bundle option \<Rightarrow> nat option \<Rightarrow> slot list" where
  "seeded_ring peak_sub_slot t0 prev_sub_slot prev_sub_slot_total_iters =
     (case prev_sub_slot of
        None \<Rightarrow> []
      | Some p \<Rightarrow> (case prev_sub_slot_total_iters of None \<Rightarrow> [] | Some pt \<Rightarrow> [Tuple3 p [] pt]))
     @ [Tuple3 peak_sub_slot [] t0]"

definition seeded ::
  "end_of_sub_slot_bundle \<Rightarrow> nat \<Rightarrow> end_of_sub_slot_bundle option \<Rightarrow> nat option \<Rightarrow> state \<Rightarrow> state" where
  "seeded peak_sub_slot t0 prev_sub_slot prev_sub_slot_total_iters st =
     (fst st, (snd st)\<lparr>finished_sub_slots :=
                 Some (seeded_ring peak_sub_slot t0 prev_sub_slot prev_sub_slot_total_iters)\<rparr>)"

text \<open>
  What \<^verbatim>\<open>new_finished_sub_slot\<close> answers to a bundle in a state (the answer only, not
  the state it leaves), and the answer \<^verbatim>\<open>False\<close>.
\<close>

definition offer ::
  "externals \<Rightarrow> (bytes32 \<rightharpoonup> sub_block_record) \<Rightarrow> sub_block_record \<Rightarrow> state
     \<Rightarrow> end_of_sub_slot_bundle \<Rightarrow> (error + bool) option" where
  "offer X sub_blocks peak st eos = map_option fst (new_finished_sub_slot X eos sub_blocks peak st)"

definition refused ::
  "externals \<Rightarrow> (bytes32 \<rightharpoonup> sub_block_record) \<Rightarrow> sub_block_record \<Rightarrow> state
     \<Rightarrow> end_of_sub_slot_bundle \<Rightarrow> bool" where
  "refused X sub_blocks peak st eos = (offer X sub_blocks peak st eos = Some (Inr False))"

text \<open>
  An instance whose ring is \<open>ring\<close> with the accepted bundle appended as line 225
  appends it: an empty table, and the total of the entry before it, \<open>t0\<close>, plus the
  bundle's challenge-chain iterations.
\<close>

definition with_accepted :: "end_of_sub_slot_bundle \<Rightarrow> nat \<Rightarrow> slot list \<Rightarrow> store \<Rightarrow> store" where
  "with_accepted eos t0 ring s =
     s\<lparr>finished_sub_slots :=
         Some (ring @ [Tuple3 eos [] (t0 + number_of_iterations
                 (challenge_chain_end_of_slot_vdf (challenge_chain eos)))])\<rparr>"

text \<open>
  A four-tuple entry on another challenge than \<open>ch\<close>: what \<^verbatim>\<open>new_signage_point\<close> steps
  over.
\<close>

fun four_tuple_off :: "externals \<Rightarrow> bytes32 \<Rightarrow> slot \<Rightarrow> bool" where
  "four_tuple_off X ch (Tuple4 e a b t) = (cc_get_hash X (challenge_chain e) \<noteq> ch)"
| "four_tuple_off X ch (Tuple3 e d t) = False"
| "four_tuple_off X ch (Boxed e a b t) = False"

text \<open>
  The scenario for the ring invariants: \<^verbatim>\<open>new_peak\<close> seeds an empty ring with a previous
  sub-slot at total 10 and a peak sub-slot of 5 iterations at total 100; then an empty
  sub-slot of 0 iterations arrives.
\<close>

definition ex_seeded :: state where
  "ex_seeded = (ex_caches, ex_store [Tuple3 (ex_eos 0 100 0 0) [] 10,
                                     Tuple3 (ex_eos 1 5 0 0) [] 100])"

definition ex_flat_ring :: "slot list" where
  "ex_flat_ring = [Tuple3 (ex_eos 0 100 0 0) [] 10, Tuple3 (ex_eos 1 5 0 0) [] 100,
                   Tuple3 (ex_eos 2 0 100 0) [] 100]"

text \<open>
  The scenario S1: a peak sub-slot at total 1000, then two empty sub-slots of 100 and
  150 iterations.
\<close>

definition ex_grown_ring :: "slot list" where
  "ex_grown_ring = [Tuple3 (ex_eos 0 100 0 0) [] 1000, Tuple3 (ex_eos 1 100 100 0) [] 1100,
                    Tuple3 (ex_eos 2 150 200 0) [] 1250]"

text \<open>
  The scenario for the replay: a bundle cached under challenge 9, and the caches that
  hold it.
\<close>

definition ex_deferred :: end_of_sub_slot_bundle where
  "ex_deferred = ex_eos 1 50 9 30"

definition ex_cached :: caches where
  "ex_cached = ex_caches\<lparr>future_eos_cache := [9 \<mapsto> [ex_deferred]]\<rparr>"

text \<open>
  Three bundles cached under challenge 9: one that does not continue the seeded
  sub-slot, the deferred one, and a third that the seeded ring would accept as well.
\<close>

definition ex_cached3 :: caches where
  "ex_cached3 = ex_caches\<lparr>future_eos_cache :=
      [9 \<mapsto> [ex_eos 7 50 9 30, ex_deferred, ex_eos 1 60 9 40]]\<rparr>"

text \<open>A signage point stored under index 1 of a three-tuple's dictionary.\<close>

definition ex_signage_point :: signage_point where
  "ex_signage_point = \<lparr>cc_vdf = Some (ex_vdf 1 10), cc_proof = Some ex_proof,
     rc_vdf = Some (ex_vdf 3 10), rc_proof = Some ex_proof\<rparr>"

section \<open>Theorems\<close>

lemmas ex_defs =
  ex_X_def ex_k_def ex_vdf_def ex_proof_def ex_eos_def ex_peak_def ex_caches_def ex_store_def

subsection \<open>Construction\<close>

text \<open>
  Claim C10. For every constants argument (and whatever the class's caches hold),
  \<^verbatim>\<open>create\<close> raises \<^verbatim>\<open>AttributeError\<close> and returns no store: \<^verbatim>\<open>clear_slots\<close> reads
  \<^verbatim>\<open>finished_sub_slots\<close>, which the fresh instance does not have.
\<close>

theorem create_raises_attribute_error:
  "fst (create k cls) = Inl AttributeError"
  by (simp add: create_def clear_slots_def fresh_def)


subsection \<open>Rejecting and deferring a finished sub-slot\<close>

text \<open>
  Claim C4. When the ring is empty, or its last entry (a three-tuple, as the store
  builds it) has a challenge chain whose hash is not the challenge of the bundle's
  challenge-chain VDF, \<^verbatim>\<open>new_finished_sub_slot\<close> returns \<^verbatim>\<open>False\<close> and the whole state,
  ring and caches, is as before.
\<close>

theorem new_finished_sub_slot_rejects_non_chaining:
  assumes "finished_sub_slots (snd st) = Some ring"
    and "ring = [] \<or>
         (case last ring of
            Tuple3 last_slot sps t \<Rightarrow>
              challenge_hash (challenge_chain_end_of_slot_vdf (challenge_chain eos))
                \<noteq> cc_get_hash X (challenge_chain last_slot)
          | Tuple4 a b c d \<Rightarrow> False
          | Boxed a b c d \<Rightarrow> False)"
  shows "new_finished_sub_slot X eos sub_blocks peak st = Some (Inr False, st)"
  using assms by (auto simp: new_finished_sub_slot_def split: slot.splits)

theorem new_finished_sub_slot_rejects_non_chaining_witness:
  "new_finished_sub_slot ex_X (ex_eos 7 50 0 0) Map.empty (ex_peak 0 0)
        (ex_caches, ex_store [Tuple3 (ex_eos 0 100 0 0) [] 100])
     = Some (Inr False, (ex_caches, ex_store [Tuple3 (ex_eos 0 100 0 0) [] 100]))
   \<and> new_finished_sub_slot ex_X (ex_eos 7 50 0 0) Map.empty (ex_peak 0 0)
        (ex_caches, ex_store [])
     = Some (Inr False, (ex_caches, ex_store []))"
  using new_finished_sub_slot_rejects_non_chaining
          [of "(ex_caches, ex_store [Tuple3 (ex_eos 0 100 0 0) [] 100])"
              "[Tuple3 (ex_eos 0 100 0 0) [] 100]" "ex_eos 7 50 0 0" ex_X Map.empty
              "ex_peak 0 0"]
        new_finished_sub_slot_rejects_non_chaining
          [of "(ex_caches, ex_store [])" "[]" "ex_eos 7 50 0 0" ex_X Map.empty "ex_peak 0 0"]
  by (simp add: ex_defs)

text \<open>
  Claim C3. The ring is not empty and ends in a three-tuple; the bundle continues the
  last slot's challenge chain and its proofs are valid; the peak lies after the last
  slot's end; the bundle's reward-chain challenge is not the peak's
  \<^verbatim>\<open>reward_infusion_new_challenge\<close>. Then \<^verbatim>\<open>new_finished_sub_slot\<close> returns \<^verbatim>\<open>False\<close>,
  and the state after it differs from the state before only in \<^verbatim>\<open>future_eos_cache\<close> at
  the bundle's reward-chain challenge, whose list has the bundle appended: the ring is
  unchanged.
\<close>

theorem new_finished_sub_slot_defers:
  assumes "finished_sub_slots (snd st) = Some ring" and "ring \<noteq> []"
    and "last ring = Tuple3 last_slot sps last_slot_iters"
    and "constants (snd st) = Some k"
    and "challenge_hash (challenge_chain_end_of_slot_vdf (challenge_chain eos))
           = cc_get_hash X (challenge_chain last_slot)"
    and "proofs_valid X k eos = Inr True"
    and "total_iters peak > last_slot_iters"
    and "challenge_hash (end_of_slot_vdf (reward_chain eos))
           \<noteq> reward_infusion_new_challenge peak"
  shows "new_finished_sub_slot X eos sub_blocks peak st =
     Some (Inr False,
       ((fst st)\<lparr>future_eos_cache := (future_eos_cache (fst st))
           (challenge_hash (end_of_slot_vdf (reward_chain eos)) \<mapsto>
              (case future_eos_cache (fst st)
                      (challenge_hash (end_of_slot_vdf (reward_chain eos))) of
                 None \<Rightarrow> [] | Some l \<Rightarrow> l) @ [eos])\<rparr>,
        snd st))"
  using assms
  by (auto simp: new_finished_sub_slot_def defer_eos_def Let_def split: option.splits)

theorem new_finished_sub_slot_defers_witness:
  "new_finished_sub_slot ex_X (ex_eos 1 50 9 30) Map.empty (ex_peak 120 8)
        (ex_caches, ex_store [Tuple3 (ex_eos 0 100 0 0) [] 100])
     = Some (Inr False,
         (ex_caches\<lparr>future_eos_cache := [9 \<mapsto> [ex_eos 1 50 9 30]]\<rparr>,
          ex_store [Tuple3 (ex_eos 0 100 0 0) [] 100]))"
  using new_finished_sub_slot_defers
          [of "(ex_caches, ex_store [Tuple3 (ex_eos 0 100 0 0) [] 100])"
              "[Tuple3 (ex_eos 0 100 0 0) [] 100]" "ex_eos 0 100 0 0" "[]" 100 ex_k
              "ex_eos 1 50 9 30" ex_X "ex_peak 120 8" Map.empty]
  by (simp add: ex_defs proofs_valid_def)

subsection \<open>Signage points\<close>

lemma signage_point_in_zero:
  "list_all is_tuple3 ring \<Longrightarrow>
   signage_point_in X H 0 l ring =
     Inr (if list_ex (\<lambda>s. challenge_chain_hash X (slot_eos s) = H) ring
          then Some empty_signage_point else None)"
proof (induction ring)
  case Nil
  then show ?case by simp
next
  case (Cons s ring)
  then show ?case by (cases s) auto
qed

text \<open>
  Claim C8, as the code has it. On a ring of three-tuples,
  \<^verbatim>\<open>get_signage_point_by_index(H, 0, last_rc_infusion)\<close> returns the empty signage point
  when some entry's sub-slot is on challenge hash \<open>H\<close>, whatever the tables hold and
  whatever \<^verbatim>\<open>last_rc_infusion\<close> is, and returns \<^verbatim>\<open>None\<close> when no entry is.
\<close>

theorem get_signage_point_by_index_zero:
  assumes "finished_sub_slots (snd st) = Some ring" and "list_all is_tuple3 ring"
  shows "get_signage_point_by_index X H 0 l st =
     Inr (if list_ex (\<lambda>s. challenge_chain_hash X (slot_eos s) = H) ring
          then Some empty_signage_point else None)"
  using assms by (simp add: get_signage_point_by_index_def signage_point_in_zero)

theorem get_signage_point_by_index_zero_witness:
  "get_signage_point_by_index ex_X 1 0 3
       (ex_caches, ex_store [Tuple3 (ex_eos 0 100 0 0) [(1, [ex_signage_point])] 100])
     = Inr (Some empty_signage_point)"
  using get_signage_point_by_index_zero
          [of "(ex_caches, ex_store [Tuple3 (ex_eos 0 100 0 0) [(1, [ex_signage_point])] 100])"
              "[Tuple3 (ex_eos 0 100 0 0) [(1, [ex_signage_point])] 100]" ex_X 1 3]
  by (simp add: ex_defs)

text \<open>
  The claim as stated fails: for a challenge hash that no entry of the ring is on, the
  lookup at index 0 returns \<^verbatim>\<open>None\<close>, not the empty signage point.
\<close>

theorem get_signage_point_by_index_zero_no_slot:
  "get_signage_point_by_index ex_X 7 0 3
       (ex_caches, ex_store [Tuple3 (ex_eos 0 100 0 0) [(1, [ex_signage_point])] 100])
     = Inr None"
  by (simp add: get_signage_point_by_index_def ex_defs)

text \<open>
  Claim C5 on a ring as the store builds it. \<^verbatim>\<open>new_peak\<close> seeds the ring with
  \<^verbatim>\<open>(peak_sub_slot, {}, total_iters)\<close>; \<^verbatim>\<open>new_signage_point\<close> for that slot's challenge
  hash and index 1 unpacks the entry into four names and raises \<^verbatim>\<open>ValueError\<close>: nothing
  is stored and nothing is returned.
\<close>

theorem new_signage_point_on_built_ring:
  "new_signage_point ex_X 1 1 (ex_vdf 1 10) ex_proof (ex_vdf 3 10) ex_proof
       (ex_caches, ex_store [Tuple3 (ex_eos 0 100 0 0) [] 100])
     = (Inl ValueError, (ex_caches, ex_store [Tuple3 (ex_eos 0 100 0 0) [] 100]))"
  by (simp add: new_signage_point_def ex_store_def ex_k_def)

lemma store_signage_point_four_tuples:
  assumes "list_all (four_tuple_off X ch) pre" and "cc_get_hash X (challenge_chain e) = ch"
    and "i < length sps_cc" and "i < length sps_rc"
  shows "store_signage_point X ch i cc rc (pre @ Tuple4 e sps_cc sps_rc t # post)
           = (Inr True,
              pre @ Tuple4 e (sps_cc[i := Some cc]) (sps_rc[i := Some rc]) t # post)"
  using assms(1)
proof (induction pre)
  case Nil
  then show ?case using assms(2-4) by simp
next
  case (Cons s pre)
  then show ?case by (cases s) simp_all
qed

text \<open>
  On a ring of four-tuples, which no method builds, \<^verbatim>\<open>new_signage_point\<close> does what
  claim C5 says: the first entry on the challenge hash gets the two pairs at the index,
  over whatever was there, and the call returns \<^verbatim>\<open>True\<close>.
\<close>

lemma new_signage_point_four_tuples:
  assumes "constants (snd st) = Some k" and "0 < i" and "i < NUM_CHECKPOINTS_PER_SLOT k"
    and "finished_sub_slots (snd st) = Some (pre @ Tuple4 e sps_cc sps_rc t # post)"
    and "list_all (four_tuple_off X ch) pre" and "cc_get_hash X (challenge_chain e) = ch"
    and "i < length sps_cc" and "i < length sps_rc"
  shows "new_signage_point X ch i vdf_info_cc proof_cc vdf_info_rc proof_rc st
           = (Inr True,
              (fst st, (snd st)\<lparr>finished_sub_slots :=
                 Some (pre @ Tuple4 e (sps_cc[i := Some (vdf_info_cc, proof_cc)])
                                      (sps_rc[i := Some (vdf_info_rc, proof_rc)]) t # post)\<rparr>))"
  using assms(1-4) store_signage_point_four_tuples[OF assms(5-8)]
  by (simp add: new_signage_point_def)

text \<open>And with no entry on the challenge hash it returns \<^verbatim>\<open>False\<close> and changes nothing.\<close>

lemma store_signage_point_no_match:
  "list_all (four_tuple_off X ch) ring \<Longrightarrow>
   store_signage_point X ch i cc rc ring = (Inr False, ring)"
proof (induction ring)
  case Nil
  then show ?case by simp
next
  case (Cons s ring)
  then show ?case by (cases s) simp_all
qed

subsection \<open>Enumerating finished sub-slots\<close>

text \<open>
  Claim C7 on a ring as the store builds it: five three-tuples, the chain ending with
  the slot at index 1 (hash 2) and the position hash on the slot at index 3 (hash 4).
  The loop of line 342 unpacks the first entry into four names and the call raises
  \<^verbatim>\<open>ValueError\<close>; no list is returned.
\<close>

theorem get_finished_sub_slots_on_built_ring:
  "get_finished_sub_slots ex_X (Some (ex_peak 0 0)) Map.empty 4 False
       (ex_caches, ex_store ex_ring3) = Some (Inl ValueError)
   \<and> get_finished_sub_slots ex_X (Some (ex_peak 0 0)) Map.empty 4 True
       (ex_caches, ex_store ex_ring3) = Some (Inl ValueError)"
  by (simp add: get_finished_sub_slots_def final_sub_slot_in_chain_def
      first_in_slot_ancestor.simps ex_ring3_def ex_store_def ex_peak_def)

text \<open>
  The same five sub-slots as four-tuples, which no method builds: the slices of scenario
  S6 come out as claim C7 says.
\<close>

lemma get_finished_sub_slots_four_tuples:
  "get_finished_sub_slots ex_X (Some (ex_peak 0 0)) Map.empty 4 False
       (ex_caches, ex_store ex_ring4)
     = Some (Inr [ex_eos 2 100 0 0, ex_eos 3 100 0 0])"
  "get_finished_sub_slots ex_X (Some (ex_peak 0 0)) Map.empty 4 True
       (ex_caches, ex_store ex_ring4)
     = Some (Inr [ex_eos 2 100 0 0, ex_eos 3 100 0 0, ex_eos 4 100 0 0])"
  by (simp_all add: get_finished_sub_slots_def final_sub_slot_in_chain_def
      first_in_slot_ancestor.simps ex_ring4_def ex_defs)

subsection \<open>Future caches\<close>

text \<open>
  Claim C9 fails on the code. Two instances \<open>a\<close> and \<open>b\<close> of the class see the same
  caches \<open>cls\<close>. After \<^verbatim>\<open>add_to_future_ip\<close> on \<open>a\<close> alone, \<^verbatim>\<open>get_future_ip\<close> on \<open>b\<close>
  returns one more element under the infusion point's challenge: the element \<open>a\<close> added.
\<close>

theorem future_ip_cache_shared:
  "get_future_ip (challenge_hash (reward_chain_ip_vdf ip))
       (fst (add_to_future_ip ip (cls, a)), b)
     = get_future_ip (challenge_hash (reward_chain_ip_vdf ip)) (cls, b) @ [ip]"
  by (simp add: get_future_ip_def add_to_future_ip_def Let_def split: option.splits)

subsection \<open>Replay of deferred bundles\<close>

lemma new_finished_sub_slot_cache_at_peak:
  assumes "new_finished_sub_slot X eos sub_blocks peak st = Some (r, st')"
  shows "future_eos_cache (fst st') (reward_infusion_new_challenge peak)
           = future_eos_cache (fst st) (reward_infusion_new_challenge peak)"
  using assms
  by (auto simp: new_finished_sub_slot_def defer_eos_def append_slot_def Let_def
      split: option.splits if_splits slot.splits sum.splits bool.splits)

lemma new_finished_sub_slot_accepted:
  assumes "new_finished_sub_slot X eos sub_blocks peak st = Some (Inr True, st')"
  shows "\<exists>ring t. finished_sub_slots (snd st') = Some (ring @ [Tuple3 eos [] t])"
  using assms
  by (auto simp: new_finished_sub_slot_def append_slot_def Let_def
      split: option.splits if_splits slot.splits sum.splits bool.splits)

lemma replay_eos_cache_at_peak:
  "replay_eos X sub_blocks peak l st = Some (r, st') \<Longrightarrow>
   future_eos_cache (fst st') (reward_infusion_new_challenge peak)
     = future_eos_cache (fst st) (reward_infusion_new_challenge peak)"
proof (induction l arbitrary: st)
  case Nil
  then show ?case by simp
next
  case (Cons e l)
  show ?case
  proof (cases "new_finished_sub_slot X e sub_blocks peak st")
    case None
    with Cons.prems show ?thesis by simp
  next
    case (Some res)
    obtain b st1 where res: "res = (b, st1)" by (cases res)
    note step = new_finished_sub_slot_cache_at_peak[OF Some[unfolded res]]
    show ?thesis
    proof (cases b)
      case (Inl err)
      with Cons.prems Some res step show ?thesis by simp
    next
      case (Inr ok)
      show ?thesis
      proof (cases ok)
        case True
        with Cons.prems Some res Inr step show ?thesis by simp
      next
        case False
        with Cons.prems Some res Inr
        have "replay_eos X sub_blocks peak l st1 = Some (r, st')"
          by simp
        from Cons.IH[OF this] step show ?thesis by simp
      qed
    qed
  qed
qed

lemma replay_eos_accepted:
  "replay_eos X sub_blocks peak l st = Some (Inr (Some e), st') \<Longrightarrow>
   e \<in> set l \<and> (\<exists>ring t. finished_sub_slots (snd st') = Some (ring @ [Tuple3 e [] t]))"
proof (induction l arbitrary: st)
  case Nil
  then show ?case by simp
next
  case (Cons a l)
  then show ?case
    by (auto split: option.splits sum.splits bool.splits prod.splits
        dest: new_finished_sub_slot_accepted)
qed

lemma new_peak_prune_caches:
  "new_peak_prune X peak pss ti prev reorg st = (r, st1) \<Longrightarrow> fst st1 = fst st"
  by (auto simp: new_peak_prune_def Let_def split: option.splits if_splits prod.splits)

lemma new_peak_seed_caches:
  "new_peak_seed pss ti prev pti st = (r, st1) \<Longrightarrow> fst st1 = fst st"
  by (auto simp: new_peak_seed_def clear_slots_def split: option.splits)

text \<open>
  Whatever \<^verbatim>\<open>new_peak\<close> returns or raises, the cache holds under the peak's challenge
  the list it held before, and a bundle that is returned is one of that list and the
  last entry of the ring.
\<close>

lemma new_peak_cache_at_peak:
  assumes "new_peak X peak pss ti prev pti reorg sub_blocks st = Some (r, st')"
  shows "future_eos_cache (fst st') (reward_infusion_new_challenge peak)
           = future_eos_cache (fst st) (reward_infusion_new_challenge peak)
         \<and> (\<forall>e. r = Inr (Some e) \<longrightarrow>
               e \<in> set (case future_eos_cache (fst st) (reward_infusion_new_challenge peak) of
                          None \<Rightarrow> [] | Some l \<Rightarrow> l)
               \<and> (\<exists>ring t. finished_sub_slots (snd st') = Some (ring @ [Tuple3 e [] t])))"
proof -
  obtain r1 st1 where p: "new_peak_prune X peak pss ti prev reorg st = (r1, st1)"
    by (cases "new_peak_prune X peak pss ti prev reorg st")
  note c1 = new_peak_prune_caches[OF p]
  show ?thesis
  proof (cases r1)
    case (Inl e)
    with p assms c1 show ?thesis by (auto simp: new_peak_def)
  next
    case (Inr t)
    obtain r2 st2 where s: "new_peak_seed pss t prev pti st1 = (r2, st2)"
      by (cases "new_peak_seed pss t prev pti st1")
    note c2 = new_peak_seed_caches[OF s]
    show ?thesis
    proof (cases r2)
      case (Inl e)
      with p \<open>r1 = Inr t\<close> s assms c1 c2 show ?thesis by (auto simp: new_peak_def)
    next
      case (Inr u)
      with p \<open>r1 = Inr t\<close> s assms
      have rep: "replay_eos X sub_blocks peak
              (case future_eos_cache (fst st2) (reward_infusion_new_challenge peak) of
                 None \<Rightarrow> [] | Some l \<Rightarrow> l) st2 = Some (r, st')"
        by (simp add: new_peak_def)
      have same: "fst st2 = fst st" using c1 c2 by simp
      have kept: "future_eos_cache (fst st') (reward_infusion_new_challenge peak)
                    = future_eos_cache (fst st) (reward_infusion_new_challenge peak)"
        using replay_eos_cache_at_peak[OF rep] same by simp
      have accepted:
        "e \<in> set (case future_eos_cache (fst st) (reward_infusion_new_challenge peak) of
                     None \<Rightarrow> [] | Some l \<Rightarrow> l)
         \<and> (\<exists>ring t. finished_sub_slots (snd st') = Some (ring @ [Tuple3 e [] t]))"
        if "r = Inr (Some e)" for e
        using replay_eos_accepted[OF rep[unfolded that same]] .
      from kept accepted show ?thesis by blast
    qed
  qed
qed

text \<open>
  The answer of \<^verbatim>\<open>new_finished_sub_slot\<close> depends on the instance only, not on the
  caches; a refusal leaves the instance as it was, and an acceptance appends to the ring.
\<close>

lemma offer_instance:
  "snd st = snd st2 \<Longrightarrow> offer X sub_blocks peak st eos = offer X sub_blocks peak st2 eos"
  by (cases st; cases st2)
     (auto simp: offer_def new_finished_sub_slot_def Let_def
        split: option.splits slot.splits sum.splits bool.splits)

lemma new_finished_sub_slot_refused_instance:
  "new_finished_sub_slot X eos sub_blocks peak st = Some (Inr False, st') \<Longrightarrow> snd st' = snd st"
  by (auto simp: new_finished_sub_slot_def defer_eos_def append_slot_def Let_def
      split: option.splits if_splits slot.splits sum.splits bool.splits)

lemma new_finished_sub_slot_accepted_exact:
  assumes "new_finished_sub_slot X eos sub_blocks peak st = Some (Inr True, st')"
  shows "\<exists>ring last_slot sps t. finished_sub_slots (snd st) = Some ring \<and> ring \<noteq> []
           \<and> last ring = Tuple3 last_slot sps t
           \<and> st' = append_slot eos (t + number_of_iterations
                 (challenge_chain_end_of_slot_vdf (challenge_chain eos))) ring st"
  using assms
  by (auto simp: new_finished_sub_slot_def Let_def
      split: option.splits if_splits slot.splits sum.splits bool.splits)

lemma offer_cases:
  "offer X sub_blocks peak st eos = Some v \<Longrightarrow>
   \<exists>st'. new_finished_sub_slot X eos sub_blocks peak st = Some (v, st')"
  by (auto simp: offer_def)

lemma replay_eos_all_refused:
  "list_all (refused X sub_blocks peak st) l \<Longrightarrow>
   \<exists>st'. replay_eos X sub_blocks peak l st = Some (Inr None, st') \<and> snd st' = snd st"
proof (induction l arbitrary: st)
  case Nil
  then show ?case by simp
next
  case (Cons e l)
  from Cons.prems have "offer X sub_blocks peak st e = Some (Inr False)"
    by (simp add: refused_def)
  then obtain st1 where st1: "new_finished_sub_slot X e sub_blocks peak st = Some (Inr False, st1)"
    by (blast dest: offer_cases)
  have same: "snd st1 = snd st" by (rule new_finished_sub_slot_refused_instance[OF st1])
  have "refused X sub_blocks peak st1 = refused X sub_blocks peak st"
    by (rule ext) (simp add: refused_def offer_instance[OF same])
  with Cons.prems have "list_all (refused X sub_blocks peak st1) l" by simp
  from Cons.IH[OF this] same st1 show ?case by auto
qed

lemma replay_eos_first_accepted:
  assumes "list_all (refused X sub_blocks peak st) pre"
    and "offer X sub_blocks peak st e = Some (Inr True)"
  shows "\<exists>st1 st'. snd st1 = snd st
           \<and> new_finished_sub_slot X e sub_blocks peak st1 = Some (Inr True, st')
           \<and> replay_eos X sub_blocks peak (pre @ e # post) st = Some (Inr (Some e), st')"
  using assms
proof (induction pre arbitrary: st)
  case Nil
  then obtain st' where "new_finished_sub_slot X e sub_blocks peak st = Some (Inr True, st')"
    by (blast dest: offer_cases)
  then have "snd st = snd st
           \<and> new_finished_sub_slot X e sub_blocks peak st = Some (Inr True, st')
           \<and> replay_eos X sub_blocks peak ([] @ e # post) st = Some (Inr (Some e), st')"
    by simp
  then show ?case by blast
next
  case (Cons a pre)
  from Cons.prems have "offer X sub_blocks peak st a = Some (Inr False)"
    by (simp add: refused_def)
  then obtain st1 where st1: "new_finished_sub_slot X a sub_blocks peak st = Some (Inr False, st1)"
    by (blast dest: offer_cases)
  have same: "snd st1 = snd st" by (rule new_finished_sub_slot_refused_instance[OF st1])
  have r: "refused X sub_blocks peak st1 = refused X sub_blocks peak st"
    by (rule ext) (simp add: refused_def offer_instance[OF same])
  have o: "offer X sub_blocks peak st1 e = Some (Inr True)"
    using Cons.prems(2) offer_instance[OF same] by simp
  from Cons.prems(1) r have "list_all (refused X sub_blocks peak st1) pre" by simp
  from Cons.IH[OF this o] same st1 show ?case by auto
qed

lemma replay_eos_result:
  assumes "replay_eos X sub_blocks peak l st = Some (r, st')"
  shows "(r = Inr None \<longrightarrow> snd st' = snd st \<and> list_all (refused X sub_blocks peak st) l)
       \<and> (\<forall>e. r = Inr (Some e) \<longrightarrow>
             (\<exists>pre post st1. l = pre @ e # post \<and> list_all (refused X sub_blocks peak st) pre
                \<and> offer X sub_blocks peak st e = Some (Inr True)
                \<and> snd st1 = snd st
                \<and> new_finished_sub_slot X e sub_blocks peak st1 = Some (Inr True, st')))"
  using assms
proof (induction l arbitrary: st)
  case Nil
  then show ?case by auto
next
  case (Cons a l)
  show ?case
  proof (cases "new_finished_sub_slot X a sub_blocks peak st")
    case None
    with Cons.prems show ?thesis by simp
  next
    case (Some res)
    obtain b st1 where res: "res = (b, st1)" by (cases res)
    show ?thesis
    proof (cases b)
      case (Inl err)
      with Cons.prems Some res show ?thesis by auto
    next
      case (Inr ok)
      show ?thesis
      proof (cases ok)
        case True
        with Cons.prems Some res Inr have r: "r = Inr (Some a)" and s: "st' = st1" by auto
        have o: "offer X sub_blocks peak st a = Some (Inr True)"
          using Some res Inr True by (simp add: offer_def)
        have "a # l = [] @ a # l \<and> list_all (refused X sub_blocks peak st) []
                \<and> offer X sub_blocks peak st a = Some (Inr True)
                \<and> snd st = snd st
                \<and> new_finished_sub_slot X a sub_blocks peak st = Some (Inr True, st')"
          using o s Some res Inr True by simp
        then have "\<exists>pre post st1. a # l = pre @ a # post
                \<and> list_all (refused X sub_blocks peak st) pre
                \<and> offer X sub_blocks peak st a = Some (Inr True)
                \<and> snd st1 = snd st
                \<and> new_finished_sub_slot X a sub_blocks peak st1 = Some (Inr True, st')"
          by blast
        with r show ?thesis by simp
      next
        case False
        with Cons.prems Some res Inr
        have rep: "replay_eos X sub_blocks peak l st1 = Some (r, st')" by simp
        have st1: "new_finished_sub_slot X a sub_blocks peak st = Some (Inr False, st1)"
          using Some res Inr False by simp
        have same: "snd st1 = snd st" by (rule new_finished_sub_slot_refused_instance[OF st1])
        have rf: "refused X sub_blocks peak st1 = refused X sub_blocks peak st"
          by (rule ext) (simp add: refused_def offer_instance[OF same])
        have ra: "refused X sub_blocks peak st a"
          using st1 by (simp add: refused_def offer_def)
        note ih = Cons.IH[OF rep, unfolded rf same offer_instance[OF same]]
        have none: "r = Inr None \<longrightarrow>
                snd st' = snd st \<and> list_all (refused X sub_blocks peak st) (a # l)"
          using ih ra by simp
        have some: "\<exists>pre post st1. a # l = pre @ e # post
                \<and> list_all (refused X sub_blocks peak st) pre
                \<and> offer X sub_blocks peak st e = Some (Inr True)
                \<and> snd st1 = snd st
                \<and> new_finished_sub_slot X e sub_blocks peak st1 = Some (Inr True, st')"
          if "r = Inr (Some e)" for e
        proof -
          from that ih obtain pre post st2 where
            "l = pre @ e # post" "list_all (refused X sub_blocks peak st) pre"
            "offer X sub_blocks peak st e = Some (Inr True)" "snd st2 = snd st"
            "new_finished_sub_slot X e sub_blocks peak st2 = Some (Inr True, st')"
            by blast
          with ra show ?thesis
            by (intro exI[of _ "a # pre"] exI[of _ post] exI[of _ st2]) simp
        qed
        from none some show ?thesis by blast
      qed
    qed
  qed
qed

lemma new_peak_prune_instance:
  "new_peak_prune X peak pss ti prev reorg st = (r, st1) \<Longrightarrow>
   fst st1 = fst st \<and> finished_sub_slots (snd st1) \<noteq> None = (finished_sub_slots (snd st) \<noteq> None)
   \<and> (snd st1)\<lparr>finished_sub_slots := x\<rparr> = (snd st)\<lparr>finished_sub_slots := x\<rparr>"
  by (auto simp: new_peak_prune_def Let_def split: option.splits if_splits prod.splits)

lemma new_peak_seed_seeded:
  assumes "finished_sub_slots (snd st) \<noteq> None" and "prev = None \<or> pti \<noteq> None"
  shows "new_peak_seed pss t0 prev pti st
           = (Inr (), (fst st, (snd st)\<lparr>finished_sub_slots := Some (seeded_ring pss t0 prev pti)\<rparr>))"
  using assms
  by (auto simp: new_peak_seed_def clear_slots_def seeded_ring_def split: option.splits)

lemma new_peak_at_seeded:
  assumes "fst (new_peak_prune X peak pss ti prev reorg st) = Inr t0"
    and "finished_sub_slots (snd st) \<noteq> None"
    and "prev = None \<or> pti \<noteq> None"
  shows "new_peak X peak pss ti prev pti reorg sub_blocks st
           = replay_eos X sub_blocks peak (cached_eos st (reward_infusion_new_challenge peak))
               (seeded pss t0 prev pti st)"
proof -
  obtain st1 where p: "new_peak_prune X peak pss ti prev reorg st = (Inr t0, st1)"
    using assms(1) by (cases "new_peak_prune X peak pss ti prev reorg st") auto
  note i = new_peak_prune_instance[OF p]
  have set1: "finished_sub_slots (snd st1) \<noteq> None" using i assms(2) by blast
  have s: "new_peak_seed pss t0 prev pti st1 = (Inr (), seeded pss t0 prev pti st)"
    using new_peak_seed_seeded[OF set1 assms(3), of pss t0] i by (simp add: seeded_def)
  show ?thesis
    by (simp add: new_peak_def p s cached_eos_def seeded_def)
qed

lemma accepted_on_seeded:
  assumes "snd st1 = snd (seeded pss t0 prev pti st)"
    and "new_finished_sub_slot X e sub_blocks peak st1 = Some (Inr True, st')"
  shows "snd st' = with_accepted e t0 (seeded_ring pss t0 prev pti) (snd st)"
proof -
  from new_finished_sub_slot_accepted_exact[OF assms(2)]
  obtain ring last_slot sps t where
    ring: "finished_sub_slots (snd st1) = Some ring" "last ring = Tuple3 last_slot sps t"
    and st': "st' = append_slot e (t + number_of_iterations
                 (challenge_chain_end_of_slot_vdf (challenge_chain e))) ring st1"
    by blast
  from ring(1) assms(1) have r: "ring = seeded_ring pss t0 prev pti"
    by (simp add: seeded_def)
  with ring(2) have t: "t = t0" by (simp add: seeded_ring_def)
  show ?thesis
    using st' r t assms(1) by (simp add: append_slot_def with_accepted_def seeded_def)
qed

text \<open>
  Claim C6, as the code has it. Let \<open>K\<close> be the \<^verbatim>\<open>reward_infusion_new_challenge\<close> of the
  peak that \<^verbatim>\<open>new_peak\<close> adopts, on a store where the call gets as far as the replay:
  lines 287 to 305 complete with \<^verbatim>\<open>total_iters\<close> equal to \<open>t0\<close> (the parameter itself on
  a reorg), the ring attribute exists, and a previous sub-slot comes with its total. Then
  the bundles cached under \<open>K\<close> are offered to \<^verbatim>\<open>new_finished_sub_slot\<close> on the seeded
  ring in cached order, and
  \<^item> whenever the call returns, the cache holds under \<open>K\<close> the list it held before, so
    no bundle leaves the cache; a returned \<^verbatim>\<open>None\<close> means that every cached bundle was
    refused and the ring is the seed; a returned bundle is the first of the cached list
    that is accepted, every bundle before it having been refused, and the ring is the
    seed with that bundle as its last entry;
  \<^item> when every cached bundle is refused, the call returns \<^verbatim>\<open>None\<close>;
  \<^item> when a cached bundle is accepted and all before it are refused, the call returns
    that bundle, whatever is cached behind it.
\<close>

theorem new_peak_replays_cached_eos:
  assumes "fst (new_peak_prune X peak pss ti prev reorg st) = Inr t0"
    and "finished_sub_slots (snd st) \<noteq> None"
    and "prev = None \<or> pti \<noteq> None"
  shows
    "(\<forall>r st'. new_peak X peak pss ti prev pti reorg sub_blocks st = Some (r, st') \<longrightarrow>
        future_eos_cache (fst st') (reward_infusion_new_challenge peak)
          = future_eos_cache (fst st) (reward_infusion_new_challenge peak)
        \<and> (r = Inr None \<longrightarrow>
             snd st' = snd (seeded pss t0 prev pti st)
             \<and> list_all (refused X sub_blocks peak (seeded pss t0 prev pti st))
                  (cached_eos st (reward_infusion_new_challenge peak)))
        \<and> (\<forall>e. r = Inr (Some e) \<longrightarrow>
             (\<exists>pre post. cached_eos st (reward_infusion_new_challenge peak) = pre @ e # post
                \<and> list_all (refused X sub_blocks peak (seeded pss t0 prev pti st)) pre
                \<and> offer X sub_blocks peak (seeded pss t0 prev pti st) e = Some (Inr True))
             \<and> snd st' = with_accepted e t0 (seeded_ring pss t0 prev pti) (snd st)))
     \<and> (list_all (refused X sub_blocks peak (seeded pss t0 prev pti st))
           (cached_eos st (reward_infusion_new_challenge peak)) \<longrightarrow>
         (\<exists>c. new_peak X peak pss ti prev pti reorg sub_blocks st
                = Some (Inr None, (c, snd (seeded pss t0 prev pti st)))))
     \<and> (\<forall>pre e post.
           cached_eos st (reward_infusion_new_challenge peak) = pre @ e # post
           \<and> list_all (refused X sub_blocks peak (seeded pss t0 prev pti st)) pre
           \<and> offer X sub_blocks peak (seeded pss t0 prev pti st) e = Some (Inr True) \<longrightarrow>
           (\<exists>c. new_peak X peak pss ti prev pti reorg sub_blocks st
                  = Some (Inr (Some e),
                          (c, with_accepted e t0 (seeded_ring pss t0 prev pti) (snd st)))))"
proof -
  let ?K = "reward_infusion_new_challenge peak"
  let ?S = "seeded pss t0 prev pti st"
  let ?C = "cached_eos st ?K"
  have eq: "new_peak X peak pss ti prev pti reorg sub_blocks st
              = replay_eos X sub_blocks peak ?C ?S"
    by (rule new_peak_at_seeded[OF assms])
  have ret: "future_eos_cache (fst st') ?K = future_eos_cache (fst st) ?K
        \<and> (r = Inr None \<longrightarrow> snd st' = snd ?S \<and> list_all (refused X sub_blocks peak ?S) ?C)
        \<and> (\<forall>e. r = Inr (Some e) \<longrightarrow>
             (\<exists>pre post. ?C = pre @ e # post \<and> list_all (refused X sub_blocks peak ?S) pre
                \<and> offer X sub_blocks peak ?S e = Some (Inr True))
             \<and> snd st' = with_accepted e t0 (seeded_ring pss t0 prev pti) (snd st))"
    if "new_peak X peak pss ti prev pti reorg sub_blocks st = Some (r, st')" for r st'
  proof -
    from that eq have rep: "replay_eos X sub_blocks peak ?C ?S = Some (r, st')" by simp
    have kept: "future_eos_cache (fst st') ?K = future_eos_cache (fst st) ?K"
      using replay_eos_cache_at_peak[OF rep] by (simp add: seeded_def)
    note res = replay_eos_result[OF rep]
    have some: "(\<exists>pre post. ?C = pre @ e # post \<and> list_all (refused X sub_blocks peak ?S) pre
                \<and> offer X sub_blocks peak ?S e = Some (Inr True))
             \<and> snd st' = with_accepted e t0 (seeded_ring pss t0 prev pti) (snd st)"
      if "r = Inr (Some e)" for e
    proof -
      from that res obtain pre post st1 where
        d: "?C = pre @ e # post" "list_all (refused X sub_blocks peak ?S) pre"
           "offer X sub_blocks peak ?S e = Some (Inr True)"
        and s1: "snd st1 = snd ?S"
           "new_finished_sub_slot X e sub_blocks peak st1 = Some (Inr True, st')"
        by blast
      from d accepted_on_seeded[OF s1] show ?thesis by blast
    qed
    from kept res some show ?thesis by blast
  qed
  have all_ref: "\<exists>c. new_peak X peak pss ti prev pti reorg sub_blocks st
                = Some (Inr None, (c, snd ?S))"
    if "list_all (refused X sub_blocks peak ?S) ?C"
  proof -
    from replay_eos_all_refused[OF that] obtain st' where
      "replay_eos X sub_blocks peak ?C ?S = Some (Inr None, st')" "snd st' = snd ?S"
      by blast
    then have "new_peak X peak pss ti prev pti reorg sub_blocks st
                 = Some (Inr None, (fst st', snd ?S))"
      using eq by (cases st') simp
    then show ?thesis by blast
  qed
  have first_acc: "\<exists>c. new_peak X peak pss ti prev pti reorg sub_blocks st
                  = Some (Inr (Some e),
                          (c, with_accepted e t0 (seeded_ring pss t0 prev pti) (snd st)))"
    if "?C = pre @ e # post \<and> list_all (refused X sub_blocks peak ?S) pre
          \<and> offer X sub_blocks peak ?S e = Some (Inr True)" for pre e post
  proof -
    from that have c: "?C = pre @ e # post" and p: "list_all (refused X sub_blocks peak ?S) pre"
      and o: "offer X sub_blocks peak ?S e = Some (Inr True)" by auto
    from replay_eos_first_accepted[OF p o, of post] obtain st1 st' where
      s1: "snd st1 = snd ?S"
          "new_finished_sub_slot X e sub_blocks peak st1 = Some (Inr True, st')"
      and rep: "replay_eos X sub_blocks peak (pre @ e # post) ?S = Some (Inr (Some e), st')"
      by blast
    from accepted_on_seeded[OF s1] rep c eq
    have "new_peak X peak pss ti prev pti reorg sub_blocks st
            = Some (Inr (Some e),
                    (fst st', with_accepted e t0 (seeded_ring pss t0 prev pti) (snd st)))"
      by (cases st') simp
    then show ?thesis by blast
  qed
  from ret all_ref first_acc show ?thesis by blast
qed

text \<open>
  With three bundles cached under challenge 9, the first is refused, the deferred one is
  accepted, returned and appended at total 150, the third is not offered, and the cache
  still holds all three.
\<close>

theorem new_peak_replays_cached_eos_witness:
  "\<exists>c. new_peak ex_X (ex_peak 120 9) (ex_eos 0 100 0 0) 100 None None True Map.empty
          (ex_cached3, ex_store [])
        = Some (Inr (Some ex_deferred),
                (c, ex_store [Tuple3 (ex_eos 0 100 0 0) [] 100, Tuple3 ex_deferred [] 150]))
      \<and> future_eos_cache c 9 = Some [ex_eos 7 50 9 30, ex_deferred, ex_eos 1 60 9 40]"
proof -
  have a1: "fst (new_peak_prune ex_X (ex_peak 120 9) (ex_eos 0 100 0 0) 100 None True
                  (ex_cached3, ex_store [])) = Inr 100"
    by (simp add: new_peak_prune_def)
  have a2: "finished_sub_slots (snd (ex_cached3, ex_store [])) \<noteq> None"
    by (simp add: ex_store_def)
  have a3: "(None :: end_of_sub_slot_bundle option) = None \<or> (None :: nat option) \<noteq> None"
    by simp
  note replay = new_peak_replays_cached_eos[OF a1 a2 a3, of Map.empty]
  have c: "cached_eos (ex_cached3, ex_store []) (reward_infusion_new_challenge (ex_peak 120 9))
             = [ex_eos 7 50 9 30] @ ex_deferred # [ex_eos 1 60 9 40]"
    by (simp add: cached_eos_def ex_cached3_def ex_peak_def ex_caches_def)
  have p: "list_all (refused ex_X Map.empty (ex_peak 120 9)
                       (seeded (ex_eos 0 100 0 0) 100 None None (ex_cached3, ex_store [])))
             [ex_eos 7 50 9 30]"
    by (simp add: refused_def offer_def seeded_def seeded_ring_def new_finished_sub_slot_def
        ex_defs)
  have o: "offer ex_X Map.empty (ex_peak 120 9)
             (seeded (ex_eos 0 100 0 0) 100 None None (ex_cached3, ex_store [])) ex_deferred
           = Some (Inr True)"
    by (simp add: offer_def seeded_def seeded_ring_def new_finished_sub_slot_def
        proofs_valid_def append_slot_def ex_deferred_def ex_defs)
  have w: "with_accepted ex_deferred 100 (seeded_ring (ex_eos 0 100 0 0) 100 None None)
             (snd (ex_cached3, ex_store []))
           = ex_store [Tuple3 (ex_eos 0 100 0 0) [] 100, Tuple3 ex_deferred [] 150]"
    by (simp add: with_accepted_def seeded_ring_def ex_store_def ex_deferred_def ex_eos_def
        ex_vdf_def)
  from replay c p o
  obtain c' where run:
    "new_peak ex_X (ex_peak 120 9) (ex_eos 0 100 0 0) 100 None None True Map.empty
          (ex_cached3, ex_store [])
        = Some (Inr (Some ex_deferred),
                (c', with_accepted ex_deferred 100
                       (seeded_ring (ex_eos 0 100 0 0) 100 None None)
                       (snd (ex_cached3, ex_store []))))"
    by blast
  note kept = replay[THEN conjunct1, THEN spec, THEN spec, THEN mp, OF run, THEN conjunct1]
  from kept
  have "future_eos_cache c' (reward_infusion_new_challenge (ex_peak 120 9))
          = future_eos_cache (fst (ex_cached3, ex_store []))
              (reward_infusion_new_challenge (ex_peak 120 9))"
    by simp
  then have "future_eos_cache c' 9 = Some [ex_eos 7 50 9 30, ex_deferred, ex_eos 1 60 9 40]"
    by (simp add: ex_peak_def ex_cached3_def)
  with run show ?thesis unfolding w by blast
qed

text \<open>
  The claim as stated fails: after the call that retried and accepted the cached bundle,
  the cache still holds it under challenge 9.
\<close>

theorem new_peak_cache_not_drained:
  "new_peak ex_X (ex_peak 120 9) (ex_eos 0 100 0 0) 100 None None True Map.empty
       (ex_cached, ex_store [])
     = Some (Inr (Some ex_deferred),
             (ex_cached, ex_store [Tuple3 (ex_eos 0 100 0 0) [] 100,
                                   Tuple3 ex_deferred [] 150]))
   \<and> future_eos_cache ex_cached 9 = Some [ex_deferred]"
  by (simp add: new_peak_def new_peak_prune_def new_peak_seed_def clear_slots_def
      new_finished_sub_slot_def proofs_valid_def append_slot_def
      ex_cached_def ex_deferred_def ex_defs)

subsection \<open>Ring invariants\<close>

lemma adjacent_snoc:
  "ring \<noteq> [] \<Longrightarrow> adjacent (ring @ [x]) = adjacent ring @ [(last ring, x)]"
  by (induction ring rule: adjacent.induct) auto

lemma adds_up_rises_if_positive: "total_adds_up p \<Longrightarrow> total_rises_if_positive p"
  by (auto simp: total_adds_up_def total_rises_if_positive_def)

lemma ring_ok_snoc:
  assumes "ring_ok X ring" and "ring \<noteq> []" and "last ring = Tuple3 last_slot sps t"
    and "challenge_hash (challenge_chain_end_of_slot_vdf (challenge_chain eos))
           = cc_get_hash X (challenge_chain last_slot)"
  shows "ring_ok X (ring @ [Tuple3 eos [] (t + number_of_iterations
            (challenge_chain_end_of_slot_vdf (challenge_chain eos)))])"
proof -
  let ?x = "Tuple3 eos [] (t + number_of_iterations
            (challenge_chain_end_of_slot_vdf (challenge_chain eos)))"
  have c: "cc_chained X (last ring, ?x)" using assms(3,4) by (simp add: cc_chained_def)
  have s: "total_adds_up (last ring, ?x)" using assms(3) by (simp add: total_adds_up_def)
  have adj: "adjacent (ring @ [?x]) = adjacent ring @ [(last ring, ?x)]"
    using assms(2) by (rule adjacent_snoc)
  show ?thesis
    using assms(1) c s adds_up_rises_if_positive[OF s]
    unfolding ring_ok_def adj
    by (cases "adjacent ring") auto
qed

lemma new_finished_sub_slot_cases:
  assumes "new_finished_sub_slot X eos sub_blocks peak st = Some (r, st')"
  shows "st' = st \<or> st' = defer_eos eos st
     \<or> (\<exists>ring last_slot sps t. finished_sub_slots (snd st) = Some ring \<and> ring \<noteq> []
           \<and> last ring = Tuple3 last_slot sps t
           \<and> challenge_hash (challenge_chain_end_of_slot_vdf (challenge_chain eos))
                = cc_get_hash X (challenge_chain last_slot)
           \<and> r = Inr True
           \<and> st' = append_slot eos (t + number_of_iterations
                 (challenge_chain_end_of_slot_vdf (challenge_chain eos))) ring st)"
  using assms
  by (auto simp: new_finished_sub_slot_def Let_def
      split: option.splits if_splits slot.splits sum.splits bool.splits)

lemma new_finished_sub_slot_ok:
  assumes "store_ok X st" and "new_finished_sub_slot X eos sub_blocks peak st = Some (r, st')"
  shows "store_ok X st'"
  using new_finished_sub_slot_cases[OF assms(2)] assms(1)
  by (auto simp: store_ok_def defer_eos_def append_slot_def Let_def ring_ok_snoc
      split: option.splits)

lemma replay_eos_ok:
  "store_ok X st \<Longrightarrow> replay_eos X sub_blocks peak l st = Some (r, st') \<Longrightarrow> store_ok X st'"
proof (induction l arbitrary: st)
  case Nil
  then show ?case by simp
next
  case (Cons e l)
  then show ?case
    by (auto split: option.splits sum.splits bool.splits prod.splits
        dest: new_finished_sub_slot_ok)
qed

text \<open>
  On a ring of three-tuples the loop of lines 295 to 305 either has nothing to walk or
  raises at the first entry; \<^verbatim>\<open>total_iters\<close> keeps the parameter's value.
\<close>

lemma prune_slots_tuple3:
  "list_all is_tuple3 ring \<Longrightarrow>
   prune_slots pss prev n num ring acc assigned ti =
     ((if ring = [] then None else Some ValueError), acc, assigned, ti)"
  by (cases ring; cases "hd ring") auto

lemma new_peak_prune_ok:
  assumes "store_ok X st" and "new_peak_prune X peak pss ti prev reorg st = (r, st1)"
  shows "st1 = st \<and> (r = Inr ti \<or> (\<exists>e. r = Inl e))"
  using assms
  by (auto simp: new_peak_prune_def store_ok_def ring_ok_def Let_def prune_slots_tuple3
      split: option.splits if_splits)

lemma new_peak_seed_ok:
  assumes "finished_sub_slots (snd st) \<noteq> None" and "consistent_seed X pss ti prev pti"
    and "new_peak_seed pss ti prev pti st = (r, st')"
  shows "store_ok X st'"
  using assms
  by (auto simp: new_peak_seed_def clear_slots_def store_ok_def ring_ok_def consistent_seed_def
        cc_chained_def total_rises_def total_rises_if_positive_def
      split: option.splits)

lemma new_peak_ok:
  assumes "store_ok X st" and "consistent_seed X pss ti prev pti"
    and "new_peak X peak pss ti prev pti reorg sub_blocks st = Some (r, st')"
  shows "store_ok X st'"
proof -
  obtain r1 st1 where p: "new_peak_prune X peak pss ti prev reorg st = (r1, st1)"
    by (cases "new_peak_prune X peak pss ti prev reorg st")
  from new_peak_prune_ok[OF assms(1) p]
  have st1: "st1 = st" and r1: "r1 = Inr ti \<or> (\<exists>e. r1 = Inl e)"
    by auto
  show ?thesis
  proof (cases r1)
    case (Inl e)
    with p st1 assms(1,3) show ?thesis by (simp add: new_peak_def)
  next
    case (Inr t)
    with r1 have t: "t = ti" by simp
    obtain r2 st2 where s: "new_peak_seed pss ti prev pti st = (r2, st2)"
      by (cases "new_peak_seed pss ti prev pti st")
    have set: "finished_sub_slots (snd st) \<noteq> None"
      using assms(1) by (auto simp: store_ok_def split: option.splits)
    have ok2: "store_ok X st2" by (rule new_peak_seed_ok[OF set assms(2) s])
    show ?thesis
    proof (cases r2)
      case (Inl e)
      with p st1 Inr t s assms(3) ok2 show ?thesis by (simp add: new_peak_def)
    next
      case (Inr u)
      with p st1 \<open>r1 = Inr t\<close> t s assms(3)
      have "replay_eos X sub_blocks peak
              (case future_eos_cache (fst st2) (reward_infusion_new_challenge peak) of
                 None \<Rightarrow> [] | Some l \<Rightarrow> l) st2 = Some (r, st')"
        by (simp add: new_peak_def)
      from replay_eos_ok[OF ok2 this] show ?thesis .
    qed
  qed
qed

lemma store_signage_point_tuple3:
  "list_all is_tuple3 ring \<Longrightarrow> store_signage_point X ch i cc rc ring = (r, ring') \<Longrightarrow>
   ring' = ring"
  by (cases ring; cases "hd ring") auto

lemma new_signage_point_ok:
  assumes "store_ok X st" and "new_signage_point X ch i a b c d st = (r, st')"
  shows "st' = st"
proof -
  obtain ring where ring: "finished_sub_slots (snd st) = Some ring" "list_all is_tuple3 ring"
    using assms(1) by (auto simp: store_ok_def ring_ok_def split: option.splits)
  have same: "(snd st)\<lparr>finished_sub_slots := Some ring\<rparr> = snd st"
    using ring(1) by simp
  show ?thesis
    using assms(2) ring same store_signage_point_tuple3[OF ring(2)]
    by (cases st) (auto simp: new_signage_point_def split: option.splits if_splits prod.splits)
qed

text \<open>
  Claim C2, as the code has it. In every reachable state the ring is a list of
  three-tuples in which every pair of neighbours chains by challenge-chain hash; every
  entry's total is the previous entry's plus its own challenge-chain iterations, except
  that the second entry may instead be the peak sub-slot seeded above a previous
  sub-slot, with the caller's totals, which rise strictly; and the totals never fall
  and rise strictly into every entry with a positive number of challenge-chain
  iterations.
\<close>

theorem reachable_ring_ok:
  assumes "reachable X st"
  shows "store_ok X st"
  using assms
proof (induction rule: reachable.induct)
  case (created st)
  then show ?case by (simp add: store_ok_def ring_ok_def)
next
  case (peak st pss ti prev pti peak reorg sub_blocks r st')
  then show ?case by (blast intro: new_peak_ok)
next
  case (finished st eos sub_blocks peak b st')
  then show ?case by (blast intro: new_finished_sub_slot_ok)
next
  case (signage st ch index vdf_info_cc proof_cc vdf_info_rc proof_rc b st')
  then show ?case using new_signage_point_ok by blast
next
  case (cleared st u st')
  then show ?case
    by (auto simp: clear_slots_def store_ok_def ring_ok_def split: option.splits)
next
  case (future_ip st infusion_point)
  then show ?case by (simp add: store_ok_def add_to_future_ip_def Let_def)
next
  case (future_sb st sub_block)
  then show ?case by (simp add: store_ok_def add_to_future_sb_def Let_def)
next
  case (tables st cb su db ub)
  then show ?case by (simp add: store_ok_def)
qed

text \<open>
  Scenario S1 is reachable: the peak's sub-slot seeded at total 1000, then two empty
  sub-slots of 100 and 150 iterations accepted.
\<close>

lemma grown_reachable: "reachable ex_X (ex_caches, ex_store ex_grown_ring)"
proof -
  have r0: "reachable ex_X (ex_caches, ex_store [])"
    by (rule reachable.created) (simp add: ex_store_def)
  have "new_peak ex_X (ex_peak 900 0) (ex_eos 0 100 0 0) 1000 None None False Map.empty
          (ex_caches, ex_store [])
        = Some (Inr None, (ex_caches, ex_store [Tuple3 (ex_eos 0 100 0 0) [] 1000]))"
    by (simp add: new_peak_def new_peak_prune_def new_peak_seed_def clear_slots_def ex_defs)
  then have r1: "reachable ex_X (ex_caches, ex_store [Tuple3 (ex_eos 0 100 0 0) [] 1000])"
    using r0 by (rule reachable.peak[rotated 2]) (simp add: consistent_seed_def)
  have "new_finished_sub_slot ex_X (ex_eos 1 100 100 0) Map.empty (ex_peak 900 0)
          (ex_caches, ex_store [Tuple3 (ex_eos 0 100 0 0) [] 1000])
        = Some (Inr True, (ex_caches, ex_store [Tuple3 (ex_eos 0 100 0 0) [] 1000,
                                                 Tuple3 (ex_eos 1 100 100 0) [] 1100]))"
    by (simp add: new_finished_sub_slot_def proofs_valid_def empty_slot_ok_def append_slot_def
        ex_defs)
  with r1 have r2: "reachable ex_X (ex_caches, ex_store [Tuple3 (ex_eos 0 100 0 0) [] 1000,
                                                 Tuple3 (ex_eos 1 100 100 0) [] 1100])"
    by (rule reachable.finished)
  have "new_finished_sub_slot ex_X (ex_eos 2 150 200 0) Map.empty (ex_peak 900 0)
          (ex_caches, ex_store [Tuple3 (ex_eos 0 100 0 0) [] 1000,
                                Tuple3 (ex_eos 1 100 100 0) [] 1100])
        = Some (Inr True, (ex_caches, ex_store ex_grown_ring))"
    by (simp add: new_finished_sub_slot_def proofs_valid_def empty_slot_ok_def append_slot_def
        ex_grown_ring_def ex_defs)
  with r2 show ?thesis by (rule reachable.finished)
qed

theorem reachable_ring_ok_witness:
  "reachable ex_X (ex_caches, ex_store ex_grown_ring)
   \<and> store_ok ex_X (ex_caches, ex_store ex_grown_ring)"
  using grown_reachable reachable_ring_ok[OF grown_reachable] by simp

text \<open>
  The scenario against the claim as stated: a consistent seed (the peak's sub-slot
  continues the previous one, and 10 is below 100), then an empty sub-slot of 0
  iterations.
\<close>

lemma seeded_reachable: "reachable ex_X ex_seeded"
proof -
  have r0: "reachable ex_X (ex_caches, ex_store [])"
    by (rule reachable.created) (simp add: ex_store_def)
  have "new_peak ex_X (ex_peak 50 0) (ex_eos 1 5 0 0) 100 (Some (ex_eos 0 100 0 0)) (Some 10)
          True Map.empty (ex_caches, ex_store [])
        = Some (Inr None, ex_seeded)"
    by (simp add: new_peak_def new_peak_prune_def new_peak_seed_def clear_slots_def
        ex_seeded_def ex_defs)
  then show ?thesis
    using r0 by (rule reachable.peak[rotated 2]) (simp add: consistent_seed_def ex_defs)
qed

lemma flat_reachable: "reachable ex_X (ex_caches, ex_store ex_flat_ring)"
proof -
  have "new_finished_sub_slot ex_X (ex_eos 2 0 100 0) Map.empty (ex_peak 50 0) ex_seeded
        = Some (Inr True, (ex_caches, ex_store ex_flat_ring))"
    by (simp add: new_finished_sub_slot_def proofs_valid_def empty_slot_ok_def append_slot_def
        ex_seeded_def ex_flat_ring_def ex_defs)
  with seeded_reachable show ?thesis by (rule reachable.finished)
qed

text \<open>
  The claim as stated fails: the state is reachable, and in its ring, with totals 10,
  100 and 100, the second total is not the first plus the second entry's 5 iterations
  and the third total does not rise above the second.
\<close>

theorem ring_invariants_counterexample:
  "reachable ex_X (ex_caches, ex_store ex_flat_ring)
   \<and> finished_sub_slots (snd (ex_caches, ex_store ex_flat_ring)) = Some ex_flat_ring
   \<and> \<not> list_all total_adds_up (adjacent ex_flat_ring)
   \<and> \<not> list_all total_rises (adjacent ex_flat_ring)
   \<and> \<not> ring_invariants ex_X ex_flat_ring"
  using flat_reachable
  by (simp add: ex_flat_ring_def ring_invariants_def total_adds_up_def total_rises_def
      ex_store_def ex_eos_def ex_vdf_def)

subsection \<open>Peak transition\<close>

text \<open>
  Claim C1 fails on the code, in two ways. On a ring as the store builds it, the loop of
  line 295 unpacks the three-tuple into four names and the call raises \<^verbatim>\<open>ValueError\<close>.
  On a ring of four-tuples (scenario S4: the peak's sub-slot with indices 1 to 31
  populated, five signage points to keep) the loop truncates the lists, and then the
  call goes on to line 309 without returning: it clears the ring and seeds it again, so
  the entry of the peak's sub-slot is left with an empty table, indices 1 to 4 included.
\<close>

theorem new_peak_drops_signage_points:
  "new_peak ex_X (ex_peak 450 9) (ex_eos 0 100 0 0) 100 None None False Map.empty
       (ex_caches, ex_store [Tuple3 (ex_eos 0 100 0 0) [] 100])
     = Some (Inl ValueError, (ex_caches, ex_store [Tuple3 (ex_eos 0 100 0 0) [] 100]))
   \<and> new_peak ex_X (ex_peak 450 9) (ex_eos 0 100 0 0) 100 None None False Map.empty
       (ex_caches, ex_store [Tuple4 (ex_eos 0 100 0 0) ex_full ex_full 100])
     = Some (Inr None, (ex_caches, ex_store [Tuple3 (ex_eos 0 100 0 0) [] 100]))"
  by (simp add: new_peak_def new_peak_prune_def new_peak_seed_def clear_slots_def ex_defs)

text \<open>
  What the loop computes in scenario S4 before line 309 discards it: indices 0 to 4
  kept, 5 to 31 empty.
\<close>

lemma prune_slots_truncates:
  "prune_slots (ex_eos 0 100 0 0) None 5 32
       [Tuple4 (ex_eos 0 100 0 0) ex_full ex_full 100] [] False 100
     = (None,
        [Boxed (ex_eos 0 100 0 0)
           (None # replicate 4 (Some (ex_vdf 1 10, ex_proof)) @ replicate 27 None)
           (None # replicate 4 (Some (ex_vdf 1 10, ex_proof)) @ replicate 27 None) 100],
        True, 100)"
  by (simp add: ex_full_def)

text \<open>
  In general: whenever \<^verbatim>\<open>new_peak\<close> returns, with or without a reorg and whatever the
  ring held, every entry of the ring is a three-tuple with an empty table.
\<close>

lemma new_finished_sub_slot_tables_empty:
  assumes "tables_empty st" and "new_finished_sub_slot X eos sub_blocks peak st = Some (r, st')"
  shows "tables_empty st'"
  using assms
  by (auto simp: new_finished_sub_slot_def tables_empty_def defer_eos_def append_slot_def
        Let_def
      split: option.splits if_splits slot.splits sum.splits bool.splits)

lemma replay_eos_tables_empty:
  "tables_empty st \<Longrightarrow> replay_eos X sub_blocks peak l st = Some (r, st') \<Longrightarrow> tables_empty st'"
proof (induction l arbitrary: st)
  case Nil
  then show ?case by simp
next
  case (Cons e l)
  then show ?case
    by (auto split: option.splits sum.splits bool.splits prod.splits
        dest: new_finished_sub_slot_tables_empty)
qed

lemma new_peak_seed_tables_empty:
  "new_peak_seed pss ti prev pti st = (Inr u, st') \<Longrightarrow> tables_empty st'"
  by (auto simp: new_peak_seed_def clear_slots_def tables_empty_def split: option.splits)

lemma new_peak_tables_empty:
  assumes "new_peak X peak pss ti prev pti reorg sub_blocks st = Some (Inr res, st')"
  shows "tables_empty st'"
proof -
  obtain r1 st1 where p: "new_peak_prune X peak pss ti prev reorg st = (r1, st1)"
    by (cases "new_peak_prune X peak pss ti prev reorg st")
  show ?thesis
  proof (cases r1)
    case (Inl e)
    with p assms show ?thesis by (simp add: new_peak_def)
  next
    case (Inr t)
    obtain r2 st2 where s: "new_peak_seed pss t prev pti st1 = (r2, st2)"
      by (cases "new_peak_seed pss t prev pti st1")
    show ?thesis
    proof (cases r2)
      case (Inl e)
      with p \<open>r1 = Inr t\<close> s assms show ?thesis by (simp add: new_peak_def)
    next
      case (Inr u)
      with p \<open>r1 = Inr t\<close> s assms
      have rep: "replay_eos X sub_blocks peak
              (case future_eos_cache (fst st2) (reward_infusion_new_challenge peak) of
                 None \<Rightarrow> [] | Some l \<Rightarrow> l) st2 = Some (Inr res, st')"
        by (simp add: new_peak_def)
      from new_peak_seed_tables_empty[OF s[unfolded Inr]] rep show ?thesis
        by (rule replay_eos_tables_empty)
    qed
  qed
qed

end
